theory Spec2Isabelle
  imports Main "HOL-Library.Sublist" "HOL-Library.Word"
begin

section \<open>The markdown transform of the documentation build\<close>

text \<open>
  A shallow embedding of \<^verbatim>\<open>packages/.vitepress/plugins/markdownTransform.ts\<close>: the
  Vite plugin hook \<^verbatim>\<open>transform(code, id)\<close>, its helper \<^verbatim>\<open>replaceAsync\<close> and
  \<^verbatim>\<open>getFunctionMarkdown\<close>.

  A JavaScript string is a sequence of UTF-16 code units: \<open>jsstring\<close> is a list of
  16-bit words, and \<open>js\<close> turns an ASCII literal into one. The character classes of the
  regular expressions (\<^verbatim>\<open>\s\<close>, \<^verbatim>\<open>\w\<close>, \<^verbatim>\<open>.\<close>) and \<^verbatim>\<open>trim\<close> are those of
  ECMAScript over all code units.
  A promise is modelled by its outcome: \<open>Inl\<close> a rejection, \<open>Inr\<close> the value.
\<close>

subsection \<open>Strings\<close>

type_synonym cu = "16 word"

type_synonym jsstring = "cu list"

definition js :: "string \<Rightarrow> jsstring" where
  "js s = map of_char s"

abbreviation space :: cu where
  "space \<equiv> 0x20"

abbreviation backtick :: cu where
  "backtick \<equiv> 0x60"

abbreviation slash :: cu where
  "slash \<equiv> 0x2F"

abbreviation hash :: cu where
  "hash \<equiv> 0x23"

subsection \<open>Errors\<close>

datatype error =
    FormatError       \<comment> \<open>prettier's \<^verbatim>\<open>format\<close> rejects\<close>
  | TranspileError    \<comment> \<open>\<^verbatim>\<open>ts.transpileModule\<close> throws\<close>
  | TwoslashError     \<comment> \<open>the twoslasher throws\<close>
  | TypeError         \<comment> \<open>a property of \<^verbatim>\<open>undefined\<close> is read\<close>

subsection \<open>String primitives\<close>

definition nl :: cu where
  "nl = 0x0A"

definition is_line_terminator :: "cu \<Rightarrow> bool" where
  \<comment> \<open>LineTerminator, what \<^verbatim>\<open>.\<close> does not match without the \<^verbatim>\<open>s\<close> flag:
      LF, CR, U+2028, U+2029\<close>
  "is_line_terminator c \<longleftrightarrow> c = 0x0A \<or> c = 0x0D \<or> c = 0x2028 \<or> c = 0x2029"

definition is_space :: "cu \<Rightarrow> bool" where
  \<comment> \<open>\<^verbatim>\<open>\s\<close>, and what \<^verbatim>\<open>trim\<close> removes: WhiteSpace (tab, VT, FF, U+FEFF and the
      space separators U+0020, U+00A0, U+1680, U+2000 to U+200A, U+202F, U+205F, U+3000)
      and LineTerminator\<close>
  "is_space c \<longleftrightarrow>
     c = 0x09 \<or> c = 0x0B \<or> c = 0x0C \<or> c = 0xFEFF
     \<or> c = 0x20 \<or> c = 0xA0 \<or> c = 0x1680 \<or> (0x2000 \<le> c \<and> c \<le> 0x200A)
     \<or> c = 0x202F \<or> c = 0x205F \<or> c = 0x3000
     \<or> is_line_terminator c"

definition is_word :: "cu \<Rightarrow> bool" where
  \<comment> \<open>\<^verbatim>\<open>\w\<close>: the ASCII letters and digits, and the underscore\<close>
  "is_word c \<longleftrightarrow>
     (0x41 \<le> c \<and> c \<le> 0x5A) \<or> (0x61 \<le> c \<and> c \<le> 0x7A) \<or> (0x30 \<le> c \<and> c \<le> 0x39) \<or> c = 0x5F"

definition lower_char :: "cu \<Rightarrow> cu" where
  \<comment> \<open>the lower case of a code unit, given where it is an ASCII character: for \<open>A\<close> to
      \<open>Z\<close>, and for the Kelvin sign U+212A. The lower case of every other code unit
      holds a non-ASCII code unit, and so does the unit itself, which stands for it.\<close>
  "lower_char c =
     (if 0x41 \<le> c \<and> c \<le> 0x5A then c + 0x20 else if c = 0x212A then 0x6B else c)"

definition toLowerCase :: "jsstring \<Rightarrow> jsstring" where
  \<comment> \<open>\<^verbatim>\<open>String.prototype.toLowerCase\<close>, exact in every comparison with an ASCII string\<close>
  "toLowerCase s = map lower_char s"

definition canonicalize :: "cu \<Rightarrow> cu" where
  \<comment> \<open>how a code unit is compared under the flag \<^verbatim>\<open>i\<close>: the upper case of an ASCII
      letter. The canonical form of a non-ASCII code unit is never ASCII, and the unit
      itself stands for it: the patterns of lines 94 and 95 are ASCII.\<close>
  "canonicalize c = (if 0x61 \<le> c \<and> c \<le> 0x7A then c - 0x20 else c)"

definition trim :: "jsstring \<Rightarrow> jsstring" where
  "trim s = rev (dropWhile is_space (rev (dropWhile is_space s)))"

fun after_prefix :: "jsstring \<Rightarrow> jsstring \<Rightarrow> jsstring option" where
  \<comment> \<open>a literal of a pattern matched at the start of the text: what follows it\<close>
  "after_prefix [] s = Some s"
| "after_prefix (p # ps) [] = None"
| "after_prefix (p # ps) (c # cs) = (if p = c then after_prefix ps cs else None)"

fun collapse_newlines :: "jsstring \<Rightarrow> jsstring" where
  \<comment> \<open>\<^verbatim>\<open>snippet.replace(/\n+/g, '\n')\<close>: of a run of newlines the last one stays\<close>
  "collapse_newlines [] = []"
| "collapse_newlines [c] = [c]"
| "collapse_newlines (c # d # cs) =
     (if c = nl \<and> d = nl then collapse_newlines (d # cs) else c # collapse_newlines (d # cs))"

subsection \<open>The fence pattern\<close>

text \<open>
  The regular expression of line 53, with the flags \<^verbatim>\<open>g\<close> and \<^verbatim>\<open>s\<close>: a newline,
  three backticks and \<^verbatim>\<open>ts\<close>; optionally a space and one or more characters other than
  a newline (group 1); a newline; one or more characters of any kind, as few as possible
  (group 2); a newline, three backticks, a newline.
\<close>

record fence_match =
  whole :: jsstring           \<comment> \<open>the matched text, the callback's \<^verbatim>\<open>_\<close>\<close>
  group1 :: "jsstring option" \<comment> \<open>\<^verbatim>\<open>undefined\<close> when the group takes no part\<close>
  group2 :: jsstring

definition fence_open :: jsstring where
  "fence_open = (js ''\<newline>```ts'')"

definition fence_close :: jsstring where
  "fence_close = (js ''\<newline>```\<newline>'')"

definition match_meta :: "jsstring \<Rightarrow> (jsstring option \<times> jsstring) option" where
  \<comment> \<open>\<^verbatim>\<open>( [^\n]+)?\n\<close>: the group and the text after the newline\<close>
  "match_meta s =
     (case s of
        [] \<Rightarrow> None
      | c # cs \<Rightarrow>
          if c = space then
            (let m = takeWhile (\<lambda>d. d \<noteq> nl) cs; r = dropWhile (\<lambda>d. d \<noteq> nl) cs
             in if m \<noteq> [] \<and> r \<noteq> [] then Some (Some (c # m), tl r) else None)
          else if c = nl then Some (None, cs)
          else None)"

fun match_body :: "jsstring \<Rightarrow> (jsstring \<times> jsstring) option" where
  \<comment> \<open>\<^verbatim>\<open>(.+?)\n```\n\<close>: the shortest body of at least one character, and the text after the closing fence\<close>
  "match_body [] = None"
| "match_body (c # cs) =
     (case after_prefix fence_close cs of
        Some r \<Rightarrow> Some ([c], r)
      | None \<Rightarrow> (case match_body cs of None \<Rightarrow> None | Some (b, r) \<Rightarrow> Some (c # b, r)))"

definition match_at :: "jsstring \<Rightarrow> fence_match option" where
  \<comment> \<open>the pattern tried at the start of \<open>s\<close>\<close>
  "match_at s =
     (case after_prefix fence_open s of
        None \<Rightarrow> None
      | Some s1 \<Rightarrow>
          (case match_meta s1 of
             None \<Rightarrow> None
           | Some (g1, s2) \<Rightarrow>
               (case match_body s2 of
                  None \<Rightarrow> None
                | Some (g2, s3) \<Rightarrow>
                    Some \<lparr>whole = take (length s - length s3) s, group1 = g1, group2 = g2\<rparr>)))"

fun scan :: "nat \<Rightarrow> jsstring \<Rightarrow> (cu + fence_match) list" where
  \<comment> \<open>all matches of the global pattern, left to right, with the characters between them;
      the counter is the number of characters still covered by the last match\<close>
  "scan k [] = []"
| "scan (Suc k) (c # cs) = scan k cs"
| "scan 0 (c # cs) =
     (case match_at (c # cs) of
        None \<Rightarrow> Inl c # scan 0 cs
      | Some m \<Rightarrow> Inr m # scan (length (whole m) - 1) cs)"

fun replace_pieces :: "(fence_match \<Rightarrow> 's \<Rightarrow> jsstring \<times> 's) \<Rightarrow> (cu + fence_match) list \<Rightarrow> 's \<Rightarrow> jsstring \<times> 's" where
  \<comment> \<open>the replacer function is called once per match, in order; \<open>'s\<close> is what it mutates\<close>
  "replace_pieces cb [] s = ([], s)"
| "replace_pieces cb (Inl c # ps) s = (let (out, s') = replace_pieces cb ps s in (c # out, s'))"
| "replace_pieces cb (Inr m # ps) s =
     (let (r, s1) = cb m s; (out, s2) = replace_pieces cb ps s1 in (r @ out, s2))"

definition str_replace :: "jsstring \<Rightarrow> (fence_match \<Rightarrow> 's \<Rightarrow> jsstring \<times> 's) \<Rightarrow> 's \<Rightarrow> jsstring \<times> 's" where
  \<comment> \<open>\<^verbatim>\<open>str.replace(match, fn)\<close> for the fence pattern\<close>
  "str_replace str cb s = replace_pieces cb (scan 0 str) s"

subsection \<open>replaceAsync\<close>

definition promise_all :: "(nat list \<Rightarrow> nat) \<Rightarrow> (error + 'a) list \<Rightarrow> error + 'a list" where
  \<comment> \<open>\<^verbatim>\<open>Promise.all\<close>: the values in the order of the promises when all of them fulfil;
      otherwise the reason of the promise that rejects first in time. Which of the rejected
      promises that is depends on timing: \<open>race\<close> picks it from the indices of the rejected
      promises (the first of them, should its value be none of them).\<close>
  "promise_all race ps =
     (let rejected = filter (\<lambda>i. isl (ps ! i)) [0..<length ps]
      in if rejected = [] then Inr (map projr ps)
         else Inl (projl (ps ! (if race rejected \<in> set rejected then race rejected
                                else hd rejected))))"

definition shift :: "jsstring list \<Rightarrow> jsstring \<times> jsstring list" where
  \<comment> \<open>\<^verbatim>\<open>replacements.shift()\<close>; of an empty array it is \<^verbatim>\<open>undefined\<close>, which
      \<^verbatim>\<open>replace\<close> turns into text\<close>
  "shift q = (case q of [] \<Rightarrow> ((js ''undefined''), []) | r # rs \<Rightarrow> (r, rs))"

definition replaceAsync ::
  "(nat list \<Rightarrow> nat) \<Rightarrow> jsstring \<Rightarrow> (fence_match \<Rightarrow> error + jsstring) \<Rightarrow> error + jsstring" where
  \<comment> \<open>lines 207 to 214, for the pattern of line 53; \<open>race\<close> as in \<open>promise_all\<close>\<close>
  "replaceAsync race str replacer =
     (let promises = snd (str_replace str (\<lambda>m ps. ([], ps @ [replacer m])) [])
      in case promise_all race promises of
           Inl e \<Rightarrow> Inl e
         | Inr replacements \<Rightarrow> Inr (fst (str_replace str (\<lambda>m q. shift q) replacements)))"

subsection \<open>The environment\<close>

text \<open>
  What the plugin imports from other modules (\<^verbatim>\<open>prettier\<close>, \<^verbatim>\<open>typescript\<close>,
  \<^verbatim>\<open>twoslash\<close>, \<^verbatim>\<open>node:fs\<close>, the metadata registry, \<^verbatim>\<open>scripts/utils\<close>) is
  a parameter of the model. The function names of the registry are taken to be plain
  identifiers (letters, digits and underscores), so that joining them with \<^verbatim>\<open>|\<close>
  gives an alternation of literals at line 32, a name stands for itself in the
  replacement pattern of line 93, and the comparison of line 45 is one with an ASCII
  string.
\<close>

record fn_info =
  fn_name :: jsstring
  fn_docs :: jsstring

record prettier_options =
  semi :: bool
  singleQuote :: bool
  parser :: jsstring

record env =
  functionNames :: "jsstring list"
  getFunction :: "jsstring \<Rightarrow> fn_info option"
  format :: "jsstring \<Rightarrow> prettier_options \<Rightarrow> error + jsstring"
  transpileModule :: "jsstring \<Rightarrow> nat \<Rightarrow> error + jsstring"
    \<comment> \<open>the \<^verbatim>\<open>outputText\<close> for a source and \<^verbatim>\<open>compilerOptions.target\<close>\<close>
  twoslasher :: "jsstring \<Rightarrow> jsstring \<Rightarrow> error + jsstring"
    \<comment> \<open>the \<^verbatim>\<open>code\<close> of the result for a source and an extension\<close>
  hasTypes :: bool
    \<comment> \<open>\<^verbatim>\<open>existsSync(DIR_TYPES)\<close>\<close>
  demoExists :: "jsstring \<Rightarrow> jsstring \<Rightarrow> jsstring \<Rightarrow> bool"
    \<comment> \<open>\<^verbatim>\<open>existsSync(join(DIR_SRC, pkg, name, file))\<close>\<close>
  getTypeDefinition :: "jsstring \<Rightarrow> jsstring \<Rightarrow> error + jsstring option"
  packages :: "(jsstring \<times> bool) list"
    \<comment> \<open>each package's \<^verbatim>\<open>name\<close> and whether its \<^verbatim>\<open>addon\<close> is truthy\<close>
  replacer :: "jsstring \<Rightarrow> jsstring \<Rightarrow> jsstring \<Rightarrow> jsstring \<Rightarrow> jsstring"
    \<comment> \<open>\<^verbatim>\<open>replacer(code, value, key, insert)\<close> of \<^verbatim>\<open>scripts/utils\<close>\<close>
  race :: "nat list \<Rightarrow> nat"
    \<comment> \<open>which of several rejected promises rejects first in time\<close>

subsection \<open>The replacer of a TypeScript block (lines 53 to 83)\<close>

definition prettier_opts :: prettier_options where
  "prettier_opts = \<lparr>semi = False, singleQuote = True, parser = (js ''typescript'')\<rparr>"

definition code_toggle :: "jsstring \<Rightarrow> jsstring \<Rightarrow> jsstring \<Rightarrow> jsstring" where
  \<comment> \<open>the template literal of lines 66 to 82\<close>
  "code_toggle meta snippet formattedJS =
     (js ''\<newline><CodeToggle>\<newline><div class=\"code-block-ts\">\<newline>\<newline>```ts '') @ meta @ (js ''\<newline>'') @ snippet @
     (js ''\<newline>```\<newline>\<newline></div>\<newline><div class=\"code-block-js\">\<newline>\<newline>```js\<newline>'') @ formattedJS @
     (js ''\<newline>```\<newline>\<newline></div>\<newline></CodeToggle>\<newline>'')"

definition meta_of :: "fence_match \<Rightarrow> jsstring" where
  \<comment> \<open>the parameter \<^verbatim>\<open>meta = ''\<close>: the default stands for \<^verbatim>\<open>undefined\<close>\<close>
  "meta_of m = (case group1 m of None \<Rightarrow> [] | Some g \<Rightarrow> g)"

definition is_twoslash :: "jsstring \<Rightarrow> bool" where
  "is_twoslash meta \<longleftrightarrow> toLowerCase (trim meta) = (js ''twoslash'')"

definition transpile_source :: "env \<Rightarrow> jsstring \<Rightarrow> jsstring \<Rightarrow> error + jsstring" where
  \<comment> \<open>lines 54 to 57: the value of \<^verbatim>\<open>snippet\<close> from line 58 on\<close>
  "transpile_source env meta snippet =
     (if is_twoslash meta then twoslasher env snippet (js ''ts'') else Inr snippet)"

definition formatTS :: "env \<Rightarrow> jsstring \<Rightarrow> error + jsstring" where
  \<comment> \<open>line 58: the value of \<^verbatim>\<open>formattedTS\<close>\<close>
  "formatTS env snippet =
     (case format env (collapse_newlines snippet) prettier_opts of
        Inl e \<Rightarrow> Inl e
      | Inr f \<Rightarrow> Inr (trim f))"

definition formatJS :: "env \<Rightarrow> jsstring \<Rightarrow> error + jsstring" where
  \<comment> \<open>lines 62 and 63: the value of \<^verbatim>\<open>formattedJS\<close>\<close>
  "formatJS env outputText =
     (case format env outputText prettier_opts of
        Inl e \<Rightarrow> Inl e
      | Inr g \<Rightarrow> Inr (trim g))"

definition rendering :: "env \<Rightarrow> jsstring \<Rightarrow> jsstring \<Rightarrow> error + (jsstring \<times> jsstring \<times> jsstring)" where
  \<comment> \<open>lines 54 to 63: the values of \<^verbatim>\<open>snippet\<close>, \<^verbatim>\<open>formattedTS\<close> and
      \<^verbatim>\<open>formattedJS\<close> at line 64\<close>
  "rendering env meta snippet0 =
     (case transpile_source env meta snippet0 of
        Inl e \<Rightarrow> Inl e
      | Inr snippet \<Rightarrow>
          (case formatTS env snippet of
             Inl e \<Rightarrow> Inl e
           | Inr formattedTS \<Rightarrow>
               (case transpileModule env formattedTS 99 of
                  Inl e \<Rightarrow> Inl e
                | Inr outputText \<Rightarrow>
                    (case formatJS env outputText of
                       Inl e \<Rightarrow> Inl e
                     | Inr formattedJS \<Rightarrow> Inr (snippet, formattedTS, formattedJS)))))"

definition ts_block_replacer :: "env \<Rightarrow> fence_match \<Rightarrow> error + jsstring" where
  \<comment> \<open>the function passed to \<^verbatim>\<open>replaceAsync\<close> at line 53\<close>
  "ts_block_replacer env m =
     (let meta = meta_of m in
      case rendering env meta (group2 m) of
        Inl e \<Rightarrow> Inl e
      | Inr (snippet, formattedTS, formattedJS) \<Rightarrow>
          if formattedJS = formattedTS then Inr (whole m)
          else Inr (code_toggle meta snippet formattedJS))"

subsection \<open>Link rewriting (lines 30 to 41)\<close>

definition link_alternatives :: "jsstring list \<Rightarrow> jsstring list" where
  \<comment> \<open>the alternatives of the group \<^verbatim>\<open>({n1|n2|...|nk})\<close>: the braces are literal
      characters of the first and of the last alternative\<close>
  "link_alternatives ns =
     (case ns of
        [] \<Rightarrow> [(js ''{}'')]
      | [n] \<Rightarrow> [(js ''{'') @ n @ (js ''}'')]
      | n # ms \<Rightarrow> ((js ''{'') @ n) # butlast ms @ [last ms @ (js ''}'')])"

record link_match =
  link_whole :: jsstring
  link_name :: jsstring
  link_ending :: cu

fun match_link_alt :: "jsstring list \<Rightarrow> jsstring \<Rightarrow> link_match option" where
  \<comment> \<open>after the opening backtick: the first alternative that is followed by a backtick
      and a character that is no line terminator\<close>
  "match_link_alt [] s = None"
| "match_link_alt (a # as) s =
     (case after_prefix a s of
        None \<Rightarrow> match_link_alt as s
      | Some r \<Rightarrow>
          (case r of
             b # c # _ \<Rightarrow>
               if b = backtick \<and> \<not> is_line_terminator c
               then Some \<lparr>link_whole = backtick # a @ [backtick, c], link_name = a, link_ending = c\<rparr>
               else match_link_alt as s
           | _ \<Rightarrow> match_link_alt as s))"

definition match_link :: "jsstring list \<Rightarrow> jsstring \<Rightarrow> link_match option" where
  "match_link alts s =
     (case s of [] \<Rightarrow> None | c # cs \<Rightarrow> if c = backtick then match_link_alt alts cs else None)"

definition linkify_replacer :: "env \<Rightarrow> link_match \<Rightarrow> error + jsstring" where
  \<comment> \<open>lines 33 to 38; \<^verbatim>\<open>getFunction(name)!\<close> of an unknown name is \<^verbatim>\<open>undefined\<close>\<close>
  "linkify_replacer env m =
     (if link_ending m = 0x5D then Inr (link_whole m)
      else case getFunction env (link_name m) of
             None \<Rightarrow> Inl TypeError
           | Some fn \<Rightarrow> Inr ((js ''[`'') @ fn_name fn @ (js ''`]('') @ fn_docs fn @ (js '') '')))"

fun linkify :: "env \<Rightarrow> jsstring list \<Rightarrow> nat \<Rightarrow> jsstring \<Rightarrow> error + jsstring" where
  \<comment> \<open>\<^verbatim>\<open>code.replace\<close> with the global link pattern; the counter as in \<open>scan\<close>\<close>
  "linkify env alts k [] = Inr []"
| "linkify env alts (Suc k) (c # cs) = linkify env alts k cs"
| "linkify env alts 0 (c # cs) =
     (case match_link alts (c # cs) of
        None \<Rightarrow>
          (case linkify env alts 0 cs of Inl e \<Rightarrow> Inl e | Inr out \<Rightarrow> Inr (c # out))
      | Some m \<Rightarrow>
          (case linkify_replacer env m of
             Inl e \<Rightarrow> Inl e
           | Inr r \<Rightarrow>
               (case linkify env alts (length (link_whole m) - 1) cs of
                  Inl e \<Rightarrow> Inl e
                | Inr out \<Rightarrow> Inr (r @ out))))"

definition match_url :: "jsstring \<Rightarrow> nat option" where
  \<comment> \<open>\<^verbatim>\<open>https?:\/\/vueuse\.org\/\<close> at the start of the text: the length of the match\<close>
  "match_url s =
     (case after_prefix (js ''http'') s of
        None \<Rightarrow> None
      | Some r \<Rightarrow>
          (case after_prefix (js ''s://vueuse.org/'') r of
             Some _ \<Rightarrow> Some 19
           | None \<Rightarrow> (case after_prefix (js ''://vueuse.org/'') r of Some _ \<Rightarrow> Some 18 | None \<Rightarrow> None)))"

fun relative_links :: "nat \<Rightarrow> jsstring \<Rightarrow> jsstring" where
  \<comment> \<open>line 41: every match becomes \<^verbatim>\<open>/\<close>\<close>
  "relative_links k [] = []"
| "relative_links (Suc k) (c # cs) = relative_links k cs"
| "relative_links 0 (c # cs) =
     (case match_url (c # cs) of
        None \<Rightarrow> c # relative_links 0 cs
      | Some n \<Rightarrow> slash # relative_links (n - 1) cs)"

subsection \<open>The path of the document (lines 27 and 43 to 47)\<close>

fun has_md :: "jsstring \<Rightarrow> bool" where
  \<comment> \<open>\<^verbatim>\<open>id.match(/\.md\b/)\<close>\<close>
  "has_md [] = False"
| "has_md (c # cs) =
     ((case after_prefix (js ''.md'') (c # cs) of
         None \<Rightarrow> False
       | Some r \<Rightarrow> (case r of [] \<Rightarrow> True | d # _ \<Rightarrow> \<not> is_word d))
      \<or> has_md cs)"

fun split_on :: "cu \<Rightarrow> jsstring \<Rightarrow> jsstring list" where
  "split_on d [] = [[]]"
| "split_on d (c # cs) =
     (if c = d then [] # split_on d cs
      else (case split_on d cs of [] \<Rightarrow> [[c]] | x # xs \<Rightarrow> (c # x) # xs))"

definition nth_opt :: "'a list \<Rightarrow> nat \<Rightarrow> 'a option" where
  "nth_opt xs k = (if k < length xs then Some (xs ! k) else None)"

definition path_parts :: "jsstring \<Rightarrow> jsstring option \<times> jsstring option \<times> jsstring option" where
  \<comment> \<open>\<^verbatim>\<open>const [pkg, _name, i] = id.split('/').slice(-3)\<close>\<close>
  "path_parts ident =
     (let xs = split_on slash ident; ys = drop (length xs - 3) xs
      in (nth_opt ys 0, nth_opt ys 1, nth_opt ys 2))"

definition resolve_name :: "jsstring list \<Rightarrow> jsstring option \<Rightarrow> error + jsstring option" where
  \<comment> \<open>line 45; the predicate reads \<^verbatim>\<open>_name.toLowerCase\<close> once the list has an element,
      and an empty string found is falsy\<close>
  "resolve_name names uname =
     (case uname of
        None \<Rightarrow> if names = [] then Inr None else Inl TypeError
      | Some u \<Rightarrow>
          (case find (\<lambda>n. toLowerCase n = toLowerCase u) names of
             None \<Rightarrow> Inr (Some u)
           | Some n \<Rightarrow> Inr (Some (if n = [] then u else n))))"

subsection \<open>getFunctionMarkdown (lines 106 to 205)\<close>

definition GITHUB_BLOB_URL :: jsstring where
  "GITHUB_BLOB_URL = (js ''https://github.com/vueuse/vueuse/blob/main/packages'')"

definition bullet_separator :: jsstring where
  \<comment> \<open>the separator of line 144: a space, U+2022, a space\<close>
  "bullet_separator = [space, 0x2022, space]"

fun join :: "jsstring \<Rightarrow> jsstring list \<Rightarrow> jsstring" where
  "join sep [] = []"
| "join sep [x] = x"
| "join sep (x # y # xs) = x @ sep @ join sep (y # xs)"

definition endsWith :: "jsstring \<Rightarrow> jsstring \<Rightarrow> bool" where
  "endsWith s t \<longleftrightarrow> suffix t s"

definition typing_section :: "jsstring option \<Rightarrow> jsstring" where
  \<comment> \<open>lines 116 to 135\<close>
  "typing_section types =
     (case types of
        None \<Rightarrow> []
      | Some t \<Rightarrow>
          if t = [] then []
          else
            (let code = (js ''```typescript twoslash\<newline>// @include: imports\<newline>'') @ trim t @ (js ''\<newline>```'')
             in if length t > 1000
                then (js ''\<newline>## Type Declarations\<newline>\<newline><details>\<newline><summary op50 italic cursor-pointer select-none>Show Type Declarations</summary>\<newline>\<newline>'')
                     @ code @ (js ''\<newline>\<newline></details>\<newline>'')
                else (js ''\<newline>## Type Declarations\<newline>\<newline>'') @ code))"

definition demo_section :: "jsstring \<Rightarrow> jsstring option \<Rightarrow> jsstring" where
  \<comment> \<open>lines 158 to 192\<close>
  "demo_section url demoPath =
     (case demoPath of
        None \<Rightarrow> []
      | Some d \<Rightarrow>
          if endsWith d (js ''.client.vue'')
          then (js ''\<newline><script setup>\<newline>import { defineAsyncComponent } from 'vue'\<newline>const Demo = defineAsyncComponent(() => import('./'')
               @ d @ (js '''))\<newline></script>\<newline>\<newline>## Demo\<newline>\<newline><DemoContainer>\<newline><p class=\"demo-source-link\"><a href=\"'')
               @ url @ (js ''/'') @ d @ (js ''\" target=\"_blank\">source</a></p>\<newline><ClientOnly>\<newline>  <Suspense>\<newline>    <Demo/>\<newline>    <template #fallback>\<newline>      Loading demo...\<newline>    </template>\<newline>  </Suspense>\<newline></ClientOnly>\<newline></DemoContainer>\<newline>'')
          else (js ''\<newline><script setup>\<newline>import Demo from './'')
               @ d @ (js '''\<newline></script>\<newline>\<newline>## Demo\<newline>\<newline><DemoContainer>\<newline><p class=\"demo-source-link\"><a href=\"'')
               @ url @ (js ''/'') @ d @ (js ''\" target=\"_blank\">source</a></p>\<newline><Demo/>\<newline></DemoContainer>\<newline>''))"

definition getFunctionMarkdown :: "env \<Rightarrow> jsstring \<Rightarrow> jsstring \<Rightarrow> error + (jsstring \<times> jsstring)" where
  \<comment> \<open>the result is the pair of \<^verbatim>\<open>footer\<close> and \<^verbatim>\<open>header\<close>\<close>
  "getFunctionMarkdown env pkg name =
     (let url = GITHUB_BLOB_URL @ (js ''/'') @ pkg @ (js ''/'') @ name;
          demoPath = find (\<lambda>i. demoExists env pkg name i) [(js ''demo.vue''), (js ''demo.client.vue'')]
      in case getTypeDefinition env pkg name of
           Inl e \<Rightarrow> Inl e
         | Inr types \<Rightarrow>
        (let typingSection = typing_section types;
             links = join bullet_separator
               (map (\<lambda>(l, u). (js ''['') @ l @ (js '']('') @ u @ (js '')''))
                  ([((js ''Source''), url @ (js ''/index.ts''))]
                   @ (case demoPath of None \<Rightarrow> [] | Some d \<Rightarrow> [((js ''Demo''), url @ (js ''/'') @ d)])
                   @ [((js ''Docs''), url @ (js ''/index.md''))]));
             sourceSection = (js ''## Source\<newline>\<newline>'') @ links @ (js ''\<newline>'');
             ContributorsSection = (js ''\<newline>## Contributors\<newline>\<newline><Contributors fn=\"'') @ name @ (js ''\" />\<newline>  '');
             changelogSection = (js ''\<newline>## Changelog\<newline>\<newline><Changelog fn=\"'') @ name @ (js ''\" />\<newline>'');
             demoSection = demo_section url demoPath
         in case find (\<lambda>p. fst p = pkg) (packages env) of
              None \<Rightarrow> Inl TypeError
            | Some p \<Rightarrow>
                (let packageNote =
                       (if snd p
                        then (js ''Available in the <a href=\"/'') @ pkg @ (js ''/README\">@vueuse/'') @ pkg @ (js ''</a> add-on.\<newline>'')
                        else []);
                     footer = typingSection @ (js ''\<newline>\<newline>'') @ sourceSection @ (js ''\<newline>'') @ ContributorsSection
                              @ (js ''\<newline>'') @ changelogSection @ (js ''\<newline>'');
                     header = demoSection @ packageNote
                 in Inr (footer, header))))"

subsection \<open>The page of a function (lines 48 to 95)\<close>

fun indexOf :: "jsstring \<Rightarrow> jsstring \<Rightarrow> int" where
  \<comment> \<open>\<^verbatim>\<open>code.indexOf(pattern)\<close>: \<open>-1\<close> when the pattern does not occur\<close>
  "indexOf [] p = (if p = [] then 0 else - 1)"
| "indexOf (c # cs) p =
     (if prefix p (c # cs) then 0
      else (let i = indexOf cs p in if i < 0 then - 1 else i + 1))"

definition match_header :: "jsstring \<Rightarrow> bool" where
  \<comment> \<open>\<^verbatim>\<open>\n#{2,6}\s.+\<close> at the start of the text\<close>
  "match_header s =
     (case s of
        [] \<Rightarrow> False
      | c # cs \<Rightarrow>
          c = nl \<and>
          (let h = takeWhile (\<lambda>d. d = hash) cs; r = dropWhile (\<lambda>d. d = hash) cs
           in 2 \<le> length h \<and> length h \<le> 6 \<and>
              (case r of w # d # _ \<Rightarrow> is_space w \<and> \<not> is_line_terminator d | _ \<Rightarrow> False)))"

fun search_header :: "jsstring \<Rightarrow> int" where
  \<comment> \<open>\<^verbatim>\<open>code.search(/\n#{2,6}\s.+/)\<close>\<close>
  "search_header [] = - 1"
| "search_header (c # cs) =
     (if match_header (c # cs) then 0
      else (let i = search_header cs in if i < 0 then - 1 else i + 1))"

definition slice_index :: "jsstring \<Rightarrow> nat" where
  \<comment> \<open>lines 48 to 50\<close>
  "slice_index code =
     (let frontmatterEnds = indexOf code (js ''---\<newline>\<newline>'');
          firstHeader = search_header code
      in nat (if firstHeader < 0 then (if frontmatterEnds < 0 then 0 else frontmatterEnds + 4)
              else firstHeader))"

definition match_title :: "jsstring \<Rightarrow> (jsstring \<times> jsstring) option" where
  \<comment> \<open>\<^verbatim>\<open>(# \w+)\n\<close> at the start of the text: group 1 and the text after the match\<close>
  "match_title s =
     (case after_prefix (js ''# '') s of
        None \<Rightarrow> None
      | Some r \<Rightarrow>
          (let w = takeWhile is_word r; r' = dropWhile is_word r
           in if w \<noteq> [] \<and> (case r' of [] \<Rightarrow> False | d # _ \<Rightarrow> d = nl)
              then Some ((js ''# '') @ w, tl r') else None))"

fun replace_title :: "jsstring \<Rightarrow> jsstring \<Rightarrow> jsstring" where
  \<comment> \<open>line 93: the first match only\<close>
  "replace_title name [] = []"
| "replace_title name (c # cs) =
     (case match_title (c # cs) of
        None \<Rightarrow> c # replace_title name cs
      | Some (g, rest) \<Rightarrow> g @ (js ''\<newline>\<newline><FunctionInfo fn=\"'') @ name @ (js ''\"/>\<newline>'') @ rest)"

fun ci_prefix :: "jsstring \<Rightarrow> jsstring \<Rightarrow> (jsstring \<times> jsstring) option" where
  \<comment> \<open>a literal matched without regard to case: the text matched and what follows it\<close>
  "ci_prefix [] s = Some ([], s)"
| "ci_prefix (p # ps) [] = None"
| "ci_prefix (p # ps) (c # cs) =
     (if canonicalize p = canonicalize c
      then (case ci_prefix ps cs of None \<Rightarrow> None | Some (m, r) \<Rightarrow> Some (c # m, r))
      else None)"

definition match_learn :: "jsstring \<Rightarrow> jsstring \<Rightarrow> (jsstring \<times> jsstring) option" where
  \<comment> \<open>\<^verbatim>\<open>## (Components?(?:\sUsage)?)\<close> with the flag \<^verbatim>\<open>i\<close>, for a word
      \<^verbatim>\<open>Component\<close> or \<^verbatim>\<open>Directive\<close>: group 1 and the text after the match\<close>
  "match_learn word s =
     (case after_prefix (js ''## '') s of
        None \<Rightarrow> None
      | Some r \<Rightarrow>
          (case ci_prefix word r of
             None \<Rightarrow> None
           | Some (w, r1) \<Rightarrow>
               (let (p, r2) =
                      (case r1 of
                         [] \<Rightarrow> ([], r1)
                       | c # cs \<Rightarrow> if canonicalize c = 0x53 then ([c], cs) else ([], r1));
                    (u, r3) =
                      (case r2 of
                         [] \<Rightarrow> ([], r2)
                       | c # cs \<Rightarrow>
                           if is_space c
                           then (case ci_prefix (js ''Usage'') cs of
                                   None \<Rightarrow> ([], r2)
                                 | Some (m, r') \<Rightarrow> (c # m, r'))
                           else ([], r2))
                in Some (w @ p @ u, r3))))"

fun replace_learn :: "jsstring \<Rightarrow> jsstring \<Rightarrow> jsstring \<Rightarrow> jsstring" where
  \<comment> \<open>lines 94 and 95: the first match only\<close>
  "replace_learn word tag [] = []"
| "replace_learn word tag (c # cs) =
     (case match_learn word (c # cs) of
        None \<Rightarrow> c # replace_learn word tag cs
      | Some (g, rest) \<Rightarrow> (js ''## '') @ g @ (js ''\<newline><'') @ tag @ (js '' />\<newline>\<newline>'') @ rest)"

definition function_page :: "env \<Rightarrow> jsstring \<Rightarrow> jsstring \<Rightarrow> jsstring \<Rightarrow> error + jsstring" where
  \<comment> \<open>the body of the conditional of line 47, for the linked text, \<^verbatim>\<open>pkg\<close> and \<^verbatim>\<open>name\<close>\<close>
  "function_page env code pkg name =
     (let sliceIndex = slice_index code
      in case replaceAsync (race env) code (ts_block_replacer env) of
           Inl e \<Rightarrow> Inl e
         | Inr code1 \<Rightarrow>
        (case getFunctionMarkdown env pkg name of
           Inl e \<Rightarrow> Inl e
         | Inr (footer, header) \<Rightarrow>
             (let code2 = (if hasTypes env then replacer env code1 footer (js ''FOOTER'') (js ''tail'') else code1);
                  code3 = (if header \<noteq> [] then take sliceIndex code2 @ header @ drop sliceIndex code2
                           else code2)
              in Inr (replace_learn (js ''Directive'') (js ''LearnMoreDirectives'')
                       (replace_learn (js ''Component'') (js ''LearnMoreComponents'')
                         (replace_title name code3))))))"

subsection \<open>transform (lines 26 to 99)\<close>

definition link_rewrite :: "env \<Rightarrow> jsstring \<Rightarrow> error + jsstring" where
  \<comment> \<open>lines 30 to 41\<close>
  "link_rewrite env code =
     (case linkify env (link_alternatives (functionNames env)) 0 code of
        Inl e \<Rightarrow> Inl e
      | Inr code1 \<Rightarrow> Inr (relative_links 0 code1))"

definition transform :: "env \<Rightarrow> jsstring \<Rightarrow> jsstring \<Rightarrow> error + jsstring option" where
  \<comment> \<open>\<open>Inr None\<close> is the result \<^verbatim>\<open>null\<close>\<close>
  "transform env code ident =
     (if \<not> has_md ident then Inr None
      else case link_rewrite env code of
             Inl e \<Rightarrow> Inl e
           | Inr code1 \<Rightarrow>
          (case path_parts ident of
             (pkg, uname, i) \<Rightarrow>
               (case resolve_name (functionNames env) uname of
                  Inl e \<Rightarrow> Inl e
                | Inr name \<Rightarrow>
                    (case (pkg, name) of
                       (Some p, Some n) \<Rightarrow>
                         if n \<in> set (functionNames env) \<and> i = Some (js ''index.md'')
                         then (case function_page env code1 p n of
                                 Inl e \<Rightarrow> Inl e
                               | Inr out \<Rightarrow> Inr (Some out))
                         else Inr (Some code1)
                     | _ \<Rightarrow> Inr (Some code1)))))"

subsection \<open>Notions used by the properties\<close>

definition matches :: "jsstring \<Rightarrow> fence_match list" where
  \<comment> \<open>the matched blocks of a document, in order\<close>
  "matches str = [m. Inr m \<leftarrow> scan 0 str]"

definition piece_text :: "cu + fence_match \<Rightarrow> jsstring" where
  "piece_text p = (case p of Inl c \<Rightarrow> [c] | Inr m \<Rightarrow> whole m)"

definition piece_out :: "(fence_match \<Rightarrow> error + jsstring) \<Rightarrow> cu + fence_match \<Rightarrow> jsstring" where
  \<comment> \<open>what stands in the output for a piece of the input\<close>
  "piece_out f p = (case p of Inl c \<Rightarrow> [c] | Inr m \<Rightarrow> (case f m of Inl e \<Rightarrow> [] | Inr r \<Rightarrow> r))"

definition piece_kept :: "(fence_match \<Rightarrow> error + jsstring) \<Rightarrow> cu + fence_match \<Rightarrow> jsstring" where
  \<comment> \<open>a character between the blocks is kept, and so is a block that is returned as it is\<close>
  "piece_kept f p =
     (case p of Inl c \<Rightarrow> [c] | Inr m \<Rightarrow> if f m = Inr (whole m) then whole m else [])"

definition kept :: "(fence_match \<Rightarrow> error + jsstring) \<Rightarrow> jsstring \<Rightarrow> jsstring" where
  \<comment> \<open>the text of a document outside its replaced code fences\<close>
  "kept f str = concat (map (piece_kept f) (scan 0 str))"

definition md_fence :: "jsstring \<Rightarrow> jsstring \<Rightarrow> jsstring" where
  \<comment> \<open>a fenced code block: the info string after the backticks, and the body\<close>
  "md_fence info body = js ''```'' @ info @ [nl] @ body @ [nl] @ js ''```''"

definition pane :: "jsstring \<Rightarrow> jsstring \<Rightarrow> jsstring" where
  \<comment> \<open>a pane marker element around a block\<close>
  "pane cls block = js ''<div class=\"'' @ cls @ js ''\">'' @ [nl, nl] @ block @ [nl, nl] @ js ''</div>'' @ [nl]"

definition toggle_container :: "jsstring list \<Rightarrow> jsstring" where
  "toggle_container panes = [nl] @ js ''<CodeToggle>'' @ [nl] @ concat panes @ js ''</CodeToggle>'' @ [nl]"

definition toggle_head :: jsstring where
  \<comment> \<open>the text of a replacement before the fence of its TS pane (lines 66 to 69)\<close>
  "toggle_head = js ''\<newline><CodeToggle>\<newline><div class=\"code-block-ts\">\<newline>''"

definition ts_pane :: "jsstring \<Rightarrow> jsstring \<Rightarrow> fence_match" where
  \<comment> \<open>the fence of the TS pane of a replacement, read as a match of the pattern: line 70
      puts a space before the annotation\<close>
  "ts_pane meta snippet =
     \<lparr>whole = fence_open @ (space # meta) @ nl # snippet @ fence_close,
      group1 = Some (space # meta), group2 = snippet\<rparr>"




definition ends_with_function_index :: "jsstring list \<Rightarrow> jsstring \<Rightarrow> bool" where
  \<comment> \<open>the path ends in the directory of a known function name, whatever the case of its
      letters, followed by \<^verbatim>\<open>index.md\<close>\<close>
  "ends_with_function_index names ident \<longleftrightarrow>
     (let segs = split_on slash ident
      in 2 \<le> length segs \<and> last segs = js ''index.md'' \<and>
         list_ex (\<lambda>n. toLowerCase n = toLowerCase (segs ! (length segs - 2))) names)"

definition meta_tokens :: "jsstring \<Rightarrow> jsstring list" where
  \<comment> \<open>the space-separated tokens of a fence annotation\<close>
  "meta_tokens meta = split_on space meta"

subsection \<open>A concrete environment and documents\<close>

text \<open>
  The tools tabulated on the snippets of the examples below: the formatter drops statement
  terminators and ends its output with a newline, the transpiler erases type annotations
  and keeps comments, the twoslasher removes the query line \<^verbatim>\<open>//    ^?\<close>. On every other
  input the tools fail. Of several rejected promises the first in the document is taken
  to reject first.
\<close>

definition table :: "(jsstring \<times> jsstring) list \<Rightarrow> error \<Rightarrow> jsstring \<Rightarrow> error + jsstring" where
  "table t e s = (case map_of t s of None \<Rightarrow> Inl e | Some v \<Rightarrow> Inr v)"

definition sample_env :: env where
  "sample_env = \<lparr>
     functionNames = [js ''useFoo'', js ''useBar'', js ''useBaz''],
     getFunction = (\<lambda>n. if n = js ''useBar'' then Some \<lparr>fn_name = js ''useBar'', fn_docs = js ''/core/useBar/''\<rparr> else None),
     format = (\<lambda>s opts. table [
        (js ''const a: number = 1'', js ''const a: number = 1\<newline>''),
        (js ''const a = 1;\<newline>'', js ''const a = 1\<newline>''),
        (js ''const a = 1'', js ''const a = 1\<newline>''),
        (js ''const a = 1\<newline>//    ^?'', js ''const a = 1\<newline>//    ^?\<newline>''),
        (js ''const a = 1;\<newline>//    ^?\<newline>'', js ''const a = 1\<newline>//    ^?\<newline>''),
        (js ''const n: number = 2'', js ''const n: number = 2\<newline>''),
        (js ''const n = 2;\<newline>'', js ''const n = 2\<newline>''),
        (js ''let a: number\<newline>let b: number'', js ''let a: number\<newline>let b: number\<newline>''),
        (js ''let a;\<newline>let b;\<newline>'', js ''let a\<newline>let b\<newline>'')] FormatError s),
     transpileModule = (\<lambda>s target. table [
        (js ''const a: number = 1'', js ''const a = 1;\<newline>''),
        (js ''const a = 1'', js ''const a = 1;\<newline>''),
        (js ''const a = 1\<newline>//    ^?'', js ''const a = 1;\<newline>//    ^?\<newline>''),
        (js ''const n: number = 2'', js ''const n = 2;\<newline>''),
        (js ''let a: number\<newline>let b: number'', js ''let a;\<newline>let b;\<newline>'')] TranspileError s),
     twoslasher = (\<lambda>s ext. table [
        (js ''const a: number = 1\<newline>//    ^?'', js ''const a: number = 1''),
        (js ''const a: number = 1'', js ''const a: number = 1''),
        (js ''const a = 1\<newline>//    ^?'', js ''const a = 1''),
        (js ''const n: number = 2\<newline>//    ^?'', js ''const n: number = 2'')] TwoslashError s),
     hasTypes = True,
     demoExists = (\<lambda>pkg name file. False),
     getTypeDefinition = (\<lambda>pkg name. Inr None),
     packages = [(js ''core'', True)],
     replacer = (\<lambda>code v key insert. code @ [nl, nl] @ v),
     race = hd\<rparr>"

definition block :: "jsstring \<Rightarrow> jsstring \<Rightarrow> fence_match" where
  \<comment> \<open>the match of a fence with an annotation (empty for none) and a body\<close>
  "block meta body =
     \<lparr>whole = fence_open @ meta @ [nl] @ body @ fence_close,
      group1 = (if meta = [] then None else Some meta),
      group2 = body\<rparr>"

definition doc_two_blocks :: jsstring where
  "doc_two_blocks =
     js ''# useFoo\<newline>\<newline>Text\<newline>\<newline>```ts\<newline>const a: number = 1\<newline>```\<newline>\<newline>more\<newline>\<newline>```ts\<newline>const a = 1\<newline>```\<newline>end''"

definition doc_malformed :: jsstring where
  "doc_malformed =
     js ''# useFoo\<newline>\<newline>```ts\<newline>const a: number = 1\<newline>```\<newline>\<newline>```ts\<newline>const = \<newline>```\<newline>''"

definition doc_links :: jsstring where
  "doc_links = js ''See `useBar`, and https://vueuse.org/guide/ for more.''"

definition doc_function :: jsstring where
  "doc_function =
     js ''# useFoo\<newline>\<newline>## Component Usage\<newline>\<newline>## Directives\<newline>\<newline>```ts\<newline>const a: number = 1\<newline>```\<newline>\<newline>```ts\<newline>const a = 1\<newline>```\<newline>end\<newline>''"

definition doc_function_page :: jsstring where
  \<comment> \<open>the page made of \<open>doc_function\<close> for the function \<^verbatim>\<open>useFoo\<close> of the package \<^verbatim>\<open>core\<close>\<close>
  "doc_function_page =
     js ''# useFoo\<newline>\<newline><FunctionInfo fn=\"useFoo\"/>\<newline>''
     @ js ''Available in the <a href=\"/core/README\">@vueuse/core</a> add-on.\<newline>''
     @ js ''\<newline>## Component Usage\<newline><LearnMoreComponents />\<newline>\<newline>\<newline>\<newline>## Directives\<newline><LearnMoreDirectives />\<newline>\<newline>\<newline>''
     @ code_toggle [] (js ''const a: number = 1'') (js ''const a = 1'')
     @ whole (block [] (js ''const a = 1''))
     @ js ''end\<newline>''
     @ js ''\<newline>\<newline>\<newline>\<newline>## Source\<newline>\<newline>''
     @ join bullet_separator
         [js ''[Source](https://github.com/vueuse/vueuse/blob/main/packages/core/useFoo/index.ts)'',
          js ''[Docs](https://github.com/vueuse/vueuse/blob/main/packages/core/useFoo/index.md)'']
     @ js ''\<newline>\<newline>\<newline>## Contributors\<newline>\<newline><Contributors fn=\"useFoo\" />\<newline>  \<newline>\<newline>## Changelog\<newline>\<newline><Changelog fn=\"useFoo\" />\<newline>\<newline>''"


section \<open>Properties\<close>

subsection \<open>The fence pattern and the scan\<close>

lemma js_simps [simp]: "js [] = []" "js (c # s) = of_char c # js s"
  by (simp_all add: js_def)

lemma js_append: "js (s @ t) = js s @ js t"
  by (simp add: js_def)

lemma after_prefix_iff: "after_prefix p s = Some r \<longleftrightarrow> s = p @ r"
  by (induction p s rule: after_prefix.induct) auto

lemma after_prefix_append [simp]: "after_prefix p (p @ r) = Some r"
  by (simp add: after_prefix_iff)

lemma match_body_SomeD:
  "match_body s = Some (b, r) \<Longrightarrow> s = b @ fence_close @ r \<and> b \<noteq> []"
proof (induction s arbitrary: b r)
  case Nil
  then show ?case by simp
next
  case (Cons c cs)
  show ?case
  proof (cases "after_prefix fence_close cs")
    case None
    with Cons.prems obtain b' where b': "match_body cs = Some (b', r)" "b = c # b'"
      by (auto split: option.splits)
    with Cons.IH show ?thesis by simp
  next
    case (Some r')
    with Cons.prems have "b = [c]" "r = r'" by auto
    with Some show ?thesis by (simp add: after_prefix_iff)
  qed
qed

lemma match_meta_SomeD:
  "match_meta s = Some (g, r) \<Longrightarrow> s = (case g of None \<Rightarrow> [] | Some m \<Rightarrow> m) @ nl # r"
proof (cases s)
  case Nil
  assume "match_meta s = Some (g, r)"
  with Nil show ?thesis by (simp add: match_meta_def)
next
  case (Cons c cs)
  assume a: "match_meta s = Some (g, r)"
  show ?thesis
  proof (cases "c = space")
    case True
    let ?m = "takeWhile (\<lambda>d. d \<noteq> nl) cs" and ?r = "dropWhile (\<lambda>d. d \<noteq> nl) cs"
    from a Cons True have g: "g = Some (c # ?m)" and r: "r = tl ?r" and ne: "?r \<noteq> []"
      by (auto simp: match_meta_def Let_def split: if_splits)
    from ne have "hd ?r = nl" using hd_dropWhile [of "\<lambda>d. d \<noteq> nl" cs] by auto
    with ne have "?r = nl # tl ?r" by (cases ?r) auto
    then have "cs = ?m @ nl # tl ?r" using takeWhile_dropWhile_id [of "\<lambda>d. d \<noteq> nl" cs] by simp
    with g r Cons show ?thesis by simp
  next
    case False
    with a Cons show ?thesis by (auto simp: match_meta_def split: if_splits)
  qed
qed

lemma match_at_SomeD:
  assumes "match_at s = Some m"
  shows "whole m = fence_open @ meta_of m @ nl # group2 m @ fence_close"
    and "\<exists>r. s = whole m @ r"
    and "group2 m \<noteq> []"
proof -
  from assms obtain s1 g1 s2 g2 s3 where
    1: "after_prefix fence_open s = Some s1" and
    2: "match_meta s1 = Some (g1, s2)" and
    3: "match_body s2 = Some (g2, s3)" and
    m: "m = \<lparr>whole = take (length s - length s3) s, group1 = g1, group2 = g2\<rparr>"
    by (auto simp: match_at_def split: option.splits)
  from 1 have s: "s = fence_open @ s1" by (simp add: after_prefix_iff)
  from match_meta_SomeD [OF 2] have s1: "s1 = (case g1 of None \<Rightarrow> [] | Some m \<Rightarrow> m) @ nl # s2" .
  from match_body_SomeD [OF 3] have s2: "s2 = g2 @ fence_close @ s3" and ne: "g2 \<noteq> []" by auto
  let ?w = "fence_open @ (case g1 of None \<Rightarrow> [] | Some m \<Rightarrow> m) @ nl # g2 @ fence_close"
  have eq: "s = ?w @ s3" using s s1 s2 by simp
  then have "take (length s - length s3) s = ?w"
    by (metis add_diff_cancel_right' append_eq_conv_conj length_append)
  with m show "whole m = fence_open @ meta_of m @ nl # group2 m @ fence_close"
    by (simp add: meta_of_def)
  with m eq show "\<exists>r. s = whole m @ r" by (auto simp: meta_of_def)
  from m ne show "group2 m \<noteq> []" by simp
qed

lemma match_at_whole_nonempty: "match_at s = Some m \<Longrightarrow> whole m \<noteq> []"
  by (drule match_at_SomeD(1)) (simp add: fence_open_def)

lemma piece_text_simps [simp]: "piece_text (Inl c) = [c]" "piece_text (Inr m) = whole m"
  by (simp_all add: piece_text_def)

lemma scan_concat: "k \<le> length s \<Longrightarrow> concat (map piece_text (scan k s)) = drop k s"
proof (induction k s rule: scan.induct)
  case (1 k)
  then show ?case by simp
next
  case (2 k c cs)
  then show ?case by simp
next
  case (3 c cs)
  show ?case
  proof (cases "match_at (c # cs)")
    case None
    with 3 show ?thesis by simp
  next
    case (Some m)
    from match_at_SomeD(2) [OF Some] obtain r where r: "c # cs = whole m @ r" by blast
    from match_at_whole_nonempty [OF Some] obtain w ws where w: "whole m = w # ws"
      by (cases "whole m") auto
    with r have cs: "cs = ws @ r" by simp
    have "concat (map piece_text (scan (length (whole m) - 1) cs)) = drop (length (whole m) - 1) cs"
      using 3(2) [OF Some] w cs by simp
    with Some w cs r show ?thesis by simp
  qed
qed

subsection \<open>replaceAsync: collect, resolve, splice\<close>

lemma promise_all_Inr:
  assumes "promise_all rc ps = Inr vs"
  shows "ps = map Inr vs"
proof -
  from assms have none: "filter (\<lambda>i. isl (ps ! i)) [0..<length ps] = []" and vs: "vs = map projr ps"
    by (auto simp: promise_all_def Let_def split: if_splits)
  from none have "\<forall>i < length ps. \<not> isl (ps ! i)"
    by (auto simp: filter_empty_conv)
  then have "\<forall>p \<in> set ps. \<not> isl p" by (auto simp: in_set_conv_nth)
  then have "map Inr (map projr ps) = ps"
    by (induction ps) (auto simp: isl_def)
  with vs show ?thesis by simp
qed

lemma promise_all_Inl_iff:
  "(\<exists>e. promise_all rc ps = Inl e) \<longleftrightarrow> (\<exists>p \<in> set ps. isl p)"
proof -
  have "filter (\<lambda>i. isl (ps ! i)) [0..<length ps] \<noteq> [] \<longleftrightarrow> (\<exists>p \<in> set ps. isl p)"
    by (auto simp: filter_empty_conv in_set_conv_nth Bex_def)
  then show ?thesis by (auto simp: promise_all_def Let_def)
qed

lemma collect_promises:
  "snd (replace_pieces (\<lambda>m ps. ([], ps @ [f m])) pieces acc) = acc @ map f [m. Inr m \<leftarrow> pieces]"
proof (induction pieces arbitrary: acc)
  case Nil
  then show ?case by simp
next
  case (Cons p pieces)
  then show ?case by (cases p) (simp_all add: split_beta)
qed

lemma splice_replacements:
  "replace_pieces (\<lambda>m q. shift q) pieces (map g [m. Inr m \<leftarrow> pieces] @ rest) =
     (concat (map (\<lambda>p. case p of Inl c \<Rightarrow> [c] | Inr m \<Rightarrow> g m) pieces), rest)"
proof (induction pieces)
  case Nil
  then show ?case by simp
next
  case (Cons p pieces)
  then show ?case by (cases p) (simp_all add: shift_def del: js_simps)
qed

lemma replaceAsync_eq:
  "replaceAsync rc str f =
     (case promise_all rc (map f (matches str)) of
        Inl e \<Rightarrow> Inl e
      | Inr rs \<Rightarrow> Inr (concat (map (piece_out f) (scan 0 str))))"
proof (cases "promise_all rc (map f (matches str))")
  case (Inl e)
  then show ?thesis
    by (simp add: replaceAsync_def str_replace_def collect_promises matches_def)
next
  case (Inr rs)
  let ?g = "\<lambda>m. case f m of Inl e \<Rightarrow> [] | Inr r \<Rightarrow> r"
  from promise_all_Inr [OF Inr] have eq: "map f (matches str) = map Inr rs" .
  have "rs = map ?g (matches str)"
  proof -
    have "map ?g (matches str) = map (\<lambda>p. case p of Inl e \<Rightarrow> [] | Inr r \<Rightarrow> r) (map f (matches str))"
      by (simp add: comp_def)
    also have "\<dots> = rs" unfolding eq by (simp add: comp_def)
    finally show ?thesis by simp
  qed
  then have rs: "rs = map ?g [m. Inr m \<leftarrow> scan 0 str] @ []" by (simp add: matches_def)
  have po: "piece_out f = (\<lambda>p. case p of Inl c \<Rightarrow> [c] | Inr m \<Rightarrow> ?g m)"
    by (rule ext) (simp add: piece_out_def)
  have "fst (str_replace str (\<lambda>m q. shift q) rs) = concat (map (piece_out f) (scan 0 str))"
    unfolding str_replace_def po by (subst rs, subst splice_replacements) simp
  with Inr show ?thesis
    by (simp add: replaceAsync_def collect_promises str_replace_def matches_def)
qed

subsection \<open>The replacer of a block\<close>

lemma rendering_InrD:
  assumes "rendering env meta body = Inr (snippet, formattedTS, formattedJS)"
  shows "transpile_source env meta body = Inr snippet"
    and "formatTS env snippet = Inr formattedTS"
    and "\<exists>jsout. transpileModule env formattedTS 99 = Inr jsout \<and> formatJS env jsout = Inr formattedJS"
  using assms by (auto simp: rendering_def split: sum.splits)

lemma ts_block_replacer_InrD:
  assumes "ts_block_replacer env m = Inr out"
  obtains snippet formattedTS formattedJS where
    "rendering env (meta_of m) (group2 m) = Inr (snippet, formattedTS, formattedJS)"
    "out = (if formattedJS = formattedTS then whole m else code_toggle (meta_of m) snippet formattedJS)"
  using assms by (auto simp: ts_block_replacer_def Let_def split: sum.splits if_splits)

lemma ts_block_replacer_Inl_iff:
  "ts_block_replacer env m = Inl e \<longleftrightarrow> rendering env (meta_of m) (group2 m) = Inl e"
  by (auto simp: ts_block_replacer_def Let_def split: sum.splits)

lemma code_toggle_not_match:
  assumes "match_at s = Some m"
  shows "code_toggle meta snippet jsout \<noteq> whole m"
  using match_at_SomeD(1) [OF assms] by (simp add: code_toggle_def fence_open_def)

lemma code_toggle_structure:
  "code_toggle meta snippet jsout =
     toggle_container
       [pane (js ''code-block-ts'') (md_fence ((js ''ts '') @ meta) snippet),
        pane (js ''code-block-js'') (md_fence (js ''js'') jsout)]"
  by (simp add: code_toggle_def toggle_container_def pane_def md_fence_def nl_def)

lemma trim_decomp:
  "\<exists>l r. s = l @ trim s @ r \<and> list_all is_space l \<and> list_all is_space r"
proof -
  let ?l = "takeWhile is_space s" and ?t = "dropWhile is_space s"
  let ?r = "rev (takeWhile is_space (rev ?t))"
  have "trim s @ ?r = rev (takeWhile is_space (rev ?t) @ dropWhile is_space (rev ?t))"
    by (simp only: trim_def rev_append)
  also have "\<dots> = ?t" by (simp only: takeWhile_dropWhile_id rev_rev_ident)
  finally have t: "?t = trim s @ ?r" by (rule sym)
  have "s = ?l @ ?t" by simp
  with t have "s = ?l @ trim s @ ?r" by simp
  moreover have "list_all is_space ?l" by (simp add: list_all_iff) (meson set_takeWhileD)
  moreover have "list_all is_space ?r" by (simp add: list_all_iff) (meson set_takeWhileD)
  ultimately show ?thesis by blast
qed

lemma trim_sandwich:
  assumes l: "list_all is_space l" and r: "list_all is_space r"
    and w: "\<forall>c \<in> set w. \<not> is_space c"
  shows "trim (l @ w @ r) = w"
proof (cases "w = []")
  case True
  have "dropWhile is_space (l @ r) = []"
    using l r unfolding dropWhile_eq_Nil_conv list_all_iff by auto
  then have "trim (l @ [] @ r) = []" by (simp only: trim_def append_Nil rev.simps dropWhile.simps)
  with True show ?thesis by (simp only:)
next
  case False
  from l have 1: "dropWhile is_space (l @ w @ r) = dropWhile is_space (w @ r)"
    by (simp add: list_all_iff dropWhile_append2)
  from False w have 2: "dropWhile is_space (w @ r) = w @ r"
    by (simp add: dropWhile_eq_self_iff)
  from r have "\<And>x. x \<in> set (rev r) \<Longrightarrow> is_space x" by (simp add: list_all_iff)
  then have 3: "dropWhile is_space (rev r @ rev w) = dropWhile is_space (rev w)"
    by (rule dropWhile_append2)
  from False w have 4: "dropWhile is_space (rev w) = rev w"
    by (simp add: dropWhile_eq_self_iff hd_rev)
  show ?thesis by (simp add: trim_def 1 2 3 4)
qed

lemma twoslash_no_space:
  assumes "toLowerCase w = (js ''twoslash'')"
  shows "\<forall>c \<in> set w. \<not> is_space c"
proof
  fix c assume c: "c \<in> set w"
  then have "lower_char c \<in> set (toLowerCase w)" by (simp add: toLowerCase_def)
  with assms have in8: "lower_char c \<in> set (js ''twoslash'')" by simp
  show "\<not> is_space c"
  proof
    assume sp: "is_space c"
    then have "lower_char c = c"
      by (auto simp: is_space_def is_line_terminator_def lower_char_def word_le_nat_alt)
    with in8 sp show False
      by (auto simp: is_space_def is_line_terminator_def word_le_nat_alt)
  qed
qed

lemma is_twoslash_iff:
  "is_twoslash meta \<longleftrightarrow>
     (\<exists>l w r. meta = l @ w @ r \<and> list_all is_space l \<and> list_all is_space r \<and> toLowerCase w = (js ''twoslash''))"
proof
  assume "is_twoslash meta"
  then have "toLowerCase (trim meta) = (js ''twoslash'')" by (simp add: is_twoslash_def)
  with trim_decomp [of meta] show "\<exists>l w r. meta = l @ w @ r \<and> list_all is_space l \<and> list_all is_space r \<and> toLowerCase w = (js ''twoslash'')"
    by blast
next
  assume "\<exists>l w r. meta = l @ w @ r \<and> list_all is_space l \<and> list_all is_space r \<and> toLowerCase w = (js ''twoslash'')"
  then obtain l w r where m: "meta = l @ w @ r" and l: "list_all is_space l" and r: "list_all is_space r"
    and w: "toLowerCase w = (js ''twoslash'')" by blast
  from trim_sandwich [OF l r twoslash_no_space [OF w]] m w
  show "is_twoslash meta" by (simp add: is_twoslash_def)
qed

subsection \<open>The collapse of newline runs\<close>





subsection \<open>Claims\<close>

text \<open>
  C4. For a document with N matched TypeScript blocks whose replacements all resolve, the
  output is the input with every matched block replaced, in place and in the input's
  order, by the replacement computed for that very block: there are exactly N replaced
  regions, and every block is matched, and its replacement computed, on the original text.
\<close>

theorem replaceAsync_order:
  assumes "replaceAsync rc str f = Inr out"
  shows "str = concat (map piece_text (scan 0 str))
       \<and> out = concat (map (piece_out f) (scan 0 str))
       \<and> list_all (\<lambda>m. \<not> isl (f m)) (matches str)
       \<and> length (filter (\<lambda>p. \<not> isl p) (scan 0 str)) = length (matches str)"
proof -
  from assms obtain rs where rs: "promise_all rc (map f (matches str)) = Inr rs"
    by (auto simp: replaceAsync_eq split: sum.splits)
  from promise_all_Inr [OF rs] have "\<forall>p \<in> set (map f (matches str)). \<not> isl p"
    by auto
  then have all: "list_all (\<lambda>m. \<not> isl (f m)) (matches str)"
    by (simp add: list_all_iff)
  have len: "length (filter (\<lambda>p. \<not> isl p) ps) = length [m. Inr m \<leftarrow> ps]" for ps :: "(cu + fence_match) list"
    by (induction ps) (auto split: sum.splits)
  from assms rs have "out = concat (map (piece_out f) (scan 0 str))"
    by (simp add: replaceAsync_eq)
  with all len [of "scan 0 str"] show ?thesis
    by (simp add: scan_concat matches_def)
qed

theorem replaceAsync_order_witness:
  "replaceAsync (race sample_env) doc_two_blocks (ts_block_replacer sample_env) =
     Inr ((js ''# useFoo\<newline>\<newline>Text\<newline>'')
          @ code_toggle [] (js ''const a: number = 1'') (js ''const a = 1'')
          @ (js ''\<newline>more\<newline>'') @ whole (block [] (js ''const a = 1'')) @ (js ''end''))
   \<and> (js ''# useFoo\<newline>\<newline>Text\<newline>'')
          @ code_toggle [] (js ''const a: number = 1'') (js ''const a = 1'')
          @ (js ''\<newline>more\<newline>'') @ whole (block [] (js ''const a = 1'')) @ (js ''end'')
       = concat (map (piece_out (ts_block_replacer sample_env)) (scan 0 doc_two_blocks))
   \<and> matches doc_two_blocks = [block [] (js ''const a: number = 1''), block [] (js ''const a = 1'')]
   \<and> length (filter (\<lambda>p. \<not> isl p) (scan 0 doc_two_blocks)) = 2"
proof -
  have h: "replaceAsync (race sample_env) doc_two_blocks (ts_block_replacer sample_env) =
     Inr ((js ''# useFoo\<newline>\<newline>Text\<newline>'')
          @ code_toggle [] (js ''const a: number = 1'') (js ''const a = 1'')
          @ (js ''\<newline>more\<newline>'') @ whole (block [] (js ''const a = 1'')) @ (js ''end''))"
    by code_simp
  have m: "matches doc_two_blocks = [block [] (js ''const a: number = 1''), block [] (js ''const a = 1'')]"
    by code_simp
  from replaceAsync_order [OF h] h m show ?thesis by simp
qed

text \<open>
  C1 (as stated: a block whose formatting or transpile step fails passes through unchanged
  and the document is still processed). The code has no handler for a failing step: in
  \<open>doc_malformed\<close> the second of two blocks does not parse, its replacer rejects, and
  with it \<^verbatim>\<open>replaceAsync\<close> and the whole transform reject.
\<close>

theorem fail_open_counterexample:
  "matches doc_malformed = [block [] (js ''const a: number = 1''), block [] (js ''const = '')]
   \<and> ts_block_replacer sample_env (block [] (js ''const = '')) = Inl FormatError
   \<and> replaceAsync (race sample_env) doc_malformed (ts_block_replacer sample_env) = Inl FormatError
   \<and> transform sample_env doc_malformed (js ''/repo/packages/core/useFoo/index.md'') = Inl FormatError"
  by code_simp

text \<open>
  C1 (amended). If, for a matched block, the formatting of the TypeScript source, the
  transpile step or the formatting of its output fails, then the replacer of that block
  fails with that error and the rewrite of the enclosing document fails as a whole: no
  output is produced, for that block or for its siblings.
\<close>

theorem step_failure_aborts:
  assumes "m \<in> set (matches str)"
    and "transpile_source env (meta_of m) (group2 m) = Inr snippet"
    and "formatTS env snippet = Inl e
         \<or> (\<exists>formattedTS. formatTS env snippet = Inr formattedTS
              \<and> (transpileModule env formattedTS 99 = Inl e
                  \<or> (\<exists>jsout. transpileModule env formattedTS 99 = Inr jsout \<and> formatJS env jsout = Inl e)))"
  shows "ts_block_replacer env m = Inl e \<and> isl (replaceAsync rc str (ts_block_replacer env))"
proof -
  from assms(2,3) have "rendering env (meta_of m) (group2 m) = Inl e"
    by (auto simp: rendering_def)
  then have e: "ts_block_replacer env m = Inl e"
    by (simp add: ts_block_replacer_Inl_iff)
  with assms(1) have "\<exists>p \<in> set (map (ts_block_replacer env) (matches str)). isl p"
    by force
  then obtain e' where "promise_all rc (map (ts_block_replacer env) (matches str)) = Inl e'"
    using promise_all_Inl_iff by blast
  then have "isl (replaceAsync rc str (ts_block_replacer env))"
    by (simp add: replaceAsync_eq)
  with e show ?thesis by simp
qed

theorem step_failure_aborts_witness:
  "block [] (js ''const = '') \<in> set (matches doc_malformed)
   \<and> transpile_source sample_env (meta_of (block [] (js ''const = ''))) (group2 (block [] (js ''const = ''))) = Inr (js ''const = '')
   \<and> formatTS sample_env (js ''const = '') = Inl FormatError
   \<and> ts_block_replacer sample_env (block [] (js ''const = '')) = Inl FormatError
   \<and> isl (replaceAsync (race sample_env) doc_malformed (ts_block_replacer sample_env))"
proof -
  have 1: "block [] (js ''const = '') \<in> set (matches doc_malformed)" by code_simp
  have 2: "transpile_source sample_env (meta_of (block [] (js ''const = ''))) (group2 (block [] (js ''const = ''))) = Inr (js ''const = '')"
    by code_simp
  have 3: "formatTS sample_env (js ''const = '') = Inl FormatError" by code_simp
  from step_failure_aborts [OF 1 2, of FormatError] 1 2 3 show ?thesis by blast
qed




text \<open>
  C3 (as stated: Unchanged exactly when the formatted JavaScript equals the formatted
  original, unstripped body). For a twoslash block the source formats the stripped text
  only. Here the original body formats to two lines and the JavaScript to one, and still
  the block is decided Unchanged.
\<close>

theorem decider_counterexample:
  "match_at (whole (block (js '' twoslash'') (js ''const a = 1\<newline>//    ^?'')))
     = Some (block (js '' twoslash'') (js ''const a = 1\<newline>//    ^?''))
   \<and> ts_block_replacer sample_env (block (js '' twoslash'') (js ''const a = 1\<newline>//    ^?''))
       = Inr (whole (block (js '' twoslash'') (js ''const a = 1\<newline>//    ^?'')))
   \<and> rendering sample_env (js '' twoslash'') (js ''const a = 1\<newline>//    ^?'')
       = Inr ((js ''const a = 1''), (js ''const a = 1''), (js ''const a = 1''))
   \<and> formatTS sample_env (js ''const a = 1\<newline>//    ^?'') = Inr (js ''const a = 1\<newline>//    ^?'')
   \<and> (js ''const a = 1'') \<noteq> (js ''const a = 1\<newline>//    ^?'')"
  by code_simp

text \<open>
  C3 (amended). For every matched block whose steps succeed, the result is Unchanged
  exactly when \<^verbatim>\<open>formattedJS\<close> equals \<^verbatim>\<open>formattedTS\<close>, where \<^verbatim>\<open>formattedTS\<close>
  is the formatter's output for the transpile-ready source (the body, or for a twoslash
  block the stripped body) and \<^verbatim>\<open>formattedJS\<close> is derived from \<^verbatim>\<open>formattedTS\<close>; in
  the Unchanged case the replacement is the matched text itself.
\<close>

theorem unchanged_iff_formatted_equal:
  assumes "match_at s = Some m"
    and "ts_block_replacer env m = Inr out"
  shows "\<exists>snippet formattedTS jsout formattedJS.
           transpile_source env (meta_of m) (group2 m) = Inr snippet
         \<and> formatTS env snippet = Inr formattedTS
         \<and> transpileModule env formattedTS 99 = Inr jsout
         \<and> formatJS env jsout = Inr formattedJS
         \<and> (out = whole m \<longleftrightarrow> formattedJS = formattedTS)
         \<and> (out = whole m \<or> out = code_toggle (meta_of m) snippet formattedJS)"
proof -
  from assms(2) obtain snippet formattedTS formattedJS where
    r: "rendering env (meta_of m) (group2 m) = Inr (snippet, formattedTS, formattedJS)" and
    out: "out = (if formattedJS = formattedTS then whole m else code_toggle (meta_of m) snippet formattedJS)"
    by (rule ts_block_replacer_InrD)
  from rendering_InrD(3) [OF r] obtain jsout where
    jsout: "transpileModule env formattedTS 99 = Inr jsout" "formatJS env jsout = Inr formattedJS" by blast
  from out code_toggle_not_match [OF assms(1)]
  have "out = whole m \<longleftrightarrow> formattedJS = formattedTS" by simp
  moreover from out have "out = whole m \<or> out = code_toggle (meta_of m) snippet formattedJS"
    by simp
  ultimately show ?thesis
    using rendering_InrD(1,2) [OF r] jsout by blast
qed

theorem unchanged_iff_formatted_equal_witness:
  "match_at ((js ''\<newline>```ts\<newline>const a = 1\<newline>```\<newline>end'')) = Some (block [] (js ''const a = 1''))
   \<and> ts_block_replacer sample_env (block [] (js ''const a = 1'')) = Inr (whole (block [] (js ''const a = 1'')))
   \<and> (\<exists>snippet formattedTS jsout formattedJS.
           transpile_source sample_env (meta_of (block [] (js ''const a = 1''))) (group2 (block [] (js ''const a = 1''))) = Inr snippet
         \<and> formatTS sample_env snippet = Inr formattedTS
         \<and> transpileModule sample_env formattedTS 99 = Inr jsout
         \<and> formatJS sample_env jsout = Inr formattedJS
         \<and> formattedJS = formattedTS)"
proof -
  let ?m = "block [] (js ''const a = 1'')"
  have 1: "match_at ((js ''\<newline>```ts\<newline>const a = 1\<newline>```\<newline>end'')) = Some ?m" by code_simp
  have 2: "ts_block_replacer sample_env ?m = Inr (whole ?m)" by code_simp
  from unchanged_iff_formatted_equal [OF 1 2] 1 2 show ?thesis by blast
qed

text \<open>
  C5 (as stated: the TS pane of a Diverged block keeps the original annotation and body).
  For a twoslash block the body of the TS pane is the stripped text: the replacement
  below is not the container built from the original body.
\<close>

theorem toggle_body_counterexample:
  "ts_block_replacer sample_env (block (js '' twoslash'') (js ''const n: number = 2\<newline>//    ^?''))
     = Inr (toggle_container
              [pane (js ''code-block-ts'') (md_fence (js ''ts  twoslash'') (js ''const n: number = 2'')),
               pane (js ''code-block-js'') (md_fence (js ''js'') (js ''const n = 2''))])
   \<and> ts_block_replacer sample_env (block (js '' twoslash'') (js ''const n: number = 2\<newline>//    ^?''))
     \<noteq> Inr (toggle_container
              [pane (js ''code-block-ts'') (md_fence (js ''ts  twoslash'') (js ''const n: number = 2\<newline>//    ^?'')),
               pane (js ''code-block-js'') (md_fence (js ''js'') (js ''const n = 2''))])"
  by code_simp

text \<open>
  C5 (amended). For every block whose result is Diverged, the replacement is a toggle
  container holding exactly two panes, each a marker element around a fenced block: the
  TS pane, whose info string is \<^verbatim>\<open>ts\<close>, a space and the original annotation and whose
  body is the transpile-ready source (the twoslasher's output if the annotation, trimmed
  of the whitespace of ECMAScript and in lower case, is \<^verbatim>\<open>twoslash\<close>, the original
  body otherwise), and the JS pane, whose info string is \<^verbatim>\<open>js\<close> and whose body is
  \<^verbatim>\<open>formattedJS\<close>.
\<close>

theorem diverged_replacement_structure:
  assumes "ts_block_replacer env m = Inr out"
    and "out \<noteq> whole m"
  shows "\<exists>snippet formattedTS formattedJS.
           rendering env (meta_of m) (group2 m) = Inr (snippet, formattedTS, formattedJS)
         \<and> (if is_twoslash (meta_of m) then twoslasher env (group2 m) (js ''ts'') = Inr snippet
             else snippet = group2 m)
         \<and> out = toggle_container
                   [pane (js ''code-block-ts'') (md_fence ((js ''ts '') @ meta_of m) snippet),
                    pane (js ''code-block-js'') (md_fence (js ''js'') formattedJS)]"
proof -
  from assms(1) obtain snippet formattedTS formattedJS where
    r: "rendering env (meta_of m) (group2 m) = Inr (snippet, formattedTS, formattedJS)" and
    out: "out = (if formattedJS = formattedTS then whole m else code_toggle (meta_of m) snippet formattedJS)"
    by (rule ts_block_replacer_InrD)
  from out assms(2) have "out = code_toggle (meta_of m) snippet formattedJS"
    by (simp split: if_splits)
  then have o: "out = toggle_container
                   [pane (js ''code-block-ts'') (md_fence ((js ''ts '') @ meta_of m) snippet),
                    pane (js ''code-block-js'') (md_fence (js ''js'') formattedJS)]"
    by (simp only: code_toggle_structure)
  from rendering_InrD(1) [OF r]
  have "if is_twoslash (meta_of m) then twoslasher env (group2 m) (js ''ts'') = Inr snippet
        else snippet = group2 m"
    by (auto simp: transpile_source_def split: if_splits)
  with r o show ?thesis by blast
qed

theorem diverged_replacement_structure_witness:
  "ts_block_replacer sample_env (block (js '' twoslash'' @ [0xA0]) (js ''const n: number = 2\<newline>//    ^?''))
     = Inr (code_toggle (js '' twoslash'' @ [0xA0]) (js ''const n: number = 2'') (js ''const n = 2''))
   \<and> code_toggle (js '' twoslash'' @ [0xA0]) (js ''const n: number = 2'') (js ''const n = 2'')
       \<noteq> whole (block (js '' twoslash'' @ [0xA0]) (js ''const n: number = 2\<newline>//    ^?''))
   \<and> is_twoslash (js '' twoslash'' @ [0xA0])
   \<and> twoslasher sample_env (js ''const n: number = 2\<newline>//    ^?'') (js ''ts'') = Inr (js ''const n: number = 2'')
   \<and> code_toggle (js '' twoslash'' @ [0xA0]) (js ''const n: number = 2'') (js ''const n = 2'')
       = toggle_container
           [pane (js ''code-block-ts'') (md_fence (js ''ts '' @ js '' twoslash'' @ [0xA0]) (js ''const n: number = 2'')),
            pane (js ''code-block-js'') (md_fence (js ''js'') (js ''const n = 2''))]"
proof -
  let ?m = "block (js '' twoslash'' @ [0xA0]) (js ''const n: number = 2\<newline>//    ^?'')"
  let ?out = "code_toggle (js '' twoslash'' @ [0xA0]) (js ''const n: number = 2'') (js ''const n = 2'')"
  have 1: "ts_block_replacer sample_env ?m = Inr ?out" by code_simp
  have 2: "?out \<noteq> whole ?m" by code_simp
  have 3: "is_twoslash (js '' twoslash'' @ [0xA0])" by code_simp
  have 4: "twoslasher sample_env (js ''const n: number = 2\<newline>//    ^?'') (js ''ts'') = Inr (js ''const n: number = 2'')"
    by code_simp
  have 5: "meta_of ?m = js '' twoslash'' @ [0xA0]" "group2 ?m = js ''const n: number = 2\<newline>//    ^?''"
    by code_simp+
  have 6: "rendering sample_env (js '' twoslash'' @ [0xA0]) (js ''const n: number = 2\<newline>//    ^?'')
             = Inr (js ''const n: number = 2'', js ''const n: number = 2'', js ''const n = 2'')"
    by code_simp
  from diverged_replacement_structure [OF 1 2] obtain snippet formattedTS formattedJS where
    r: "rendering sample_env (meta_of ?m) (group2 ?m) = Inr (snippet, formattedTS, formattedJS)" and
    o: "?out = toggle_container
                 [pane (js ''code-block-ts'') (md_fence (js ''ts '' @ meta_of ?m) snippet),
                  pane (js ''code-block-js'') (md_fence (js ''js'') formattedJS)]"
    by blast
  from r have "snippet = js ''const n: number = 2''" "formattedJS = js ''const n = 2''"
    unfolding 5 6 by simp_all
  with o have "?out = toggle_container
           [pane (js ''code-block-ts'') (md_fence (js ''ts '' @ js '' twoslash'' @ [0xA0]) (js ''const n: number = 2'')),
            pane (js ''code-block-js'') (md_fence (js ''js'') (js ''const n = 2''))]"
    unfolding 5 by simp
  with 1 2 3 4 show ?thesis by blast
qed



text \<open>
  C9 (as stated: stripping is applied when one of the space-separated tokens of the
  annotation is \<^verbatim>\<open>twoslash\<close>, whatever its case). Line 54 compares the whole annotation:
  with a second token beside \<^verbatim>\<open>twoslash\<close> the body is transpiled as it is.
\<close>

theorem twoslash_token_counterexample:
  "(js ''twoslash'') \<in> set (map toLowerCase (meta_tokens (js '' twoslash title'')))
   \<and> transpile_source sample_env (js '' twoslash title'') (js ''const a = 1\<newline>//    ^?'')
       = Inr (js ''const a = 1\<newline>//    ^?'')
   \<and> twoslasher sample_env (js ''const a = 1\<newline>//    ^?'') (js ''ts'') = Inr (js ''const a = 1'')
   \<and> ts_block_replacer sample_env (block (js '' twoslash title'') (js ''const a = 1\<newline>//    ^?''))
       = Inr (whole (block (js '' twoslash title'') (js ''const a = 1\<newline>//    ^?'')))"
  by code_simp

text \<open>
  C9 (amended). The annotation-stripping step is applied to the body before
  transpilation exactly when the whole annotation, without its leading and trailing
  whitespace (the white space and the line terminators of ECMAScript, the no-break space
  U+00A0 among them), equals \<^verbatim>\<open>twoslash\<close> case-insensitively; for every other fence,
  one with a second token beside \<^verbatim>\<open>twoslash\<close> among them, the body is transpiled as
  it is.
\<close>

theorem stripping_iff_whole_annotation:
  "transpile_source env meta body =
     (if \<exists>l w r. meta = l @ w @ r \<and> list_all is_space l \<and> list_all is_space r
                 \<and> toLowerCase w = (js ''twoslash'')
      then twoslasher env body (js ''ts'') else Inr body)"
  by (simp only: transpile_source_def is_twoslash_iff)

theorem stripping_iff_whole_annotation_witness:
  "transpile_source sample_env (space # js ''TwoSlash'' @ [0xA0]) (js ''const a = 1\<newline>//    ^?'') = Inr (js ''const a = 1'')
   \<and> (\<exists>l w r. (space # js ''TwoSlash'' @ [0xA0]) = l @ w @ r \<and> list_all is_space l \<and> list_all is_space r
                 \<and> toLowerCase w = (js ''twoslash''))"
proof -
  let ?P = "\<exists>l w r. (space # js ''TwoSlash'' @ [0xA0]) = l @ w @ r \<and> list_all is_space l \<and> list_all is_space r
                 \<and> toLowerCase w = (js ''twoslash'')"
  have 1: "transpile_source sample_env (space # js ''TwoSlash'' @ [0xA0]) (js ''const a = 1\<newline>//    ^?'') = Inr (js ''const a = 1'')"
    by code_simp
  have "?P"
  proof (rule ccontr)
    assume "\<not> ?P"
    then have "transpile_source sample_env (space # js ''TwoSlash'' @ [0xA0]) (js ''const a = 1\<newline>//    ^?'')
                 = Inr (js ''const a = 1\<newline>//    ^?'')"
      by (simp only: stripping_iff_whole_annotation if_False)
    with 1 show False by simp
  qed
  with 1 show ?thesis by blast
qed

subsection \<open>The path of the document\<close>

lemma split_on_nonempty: "split_on d s \<noteq> []"
  by (induction s) (auto split: list.splits)

lemma split_on_length: "2 \<le> length (split_on d s) \<longleftrightarrow> d \<in> set s"
proof (induction s)
  case Nil
  then show ?case by simp
next
  case (Cons c cs)
  obtain x xs where x: "split_on d cs = x # xs"
    using split_on_nonempty [of d cs] by (cases "split_on d cs") auto
  show ?case
  proof (cases "c = d")
    case True
    with x show ?thesis by simp
  next
    case False
    with x Cons show ?thesis by auto
  qed
qed

lemma find_SomeD: "find P xs = Some x \<Longrightarrow> P x \<and> x \<in> set xs"
  by (induction xs) (auto split: if_splits)

lemma resolve_name_Some:
  "\<exists>n. resolve_name names (Some u) = Inr (Some n)
       \<and> (n \<in> set names \<longleftrightarrow> list_ex (\<lambda>x. toLowerCase x = toLowerCase u) names)"
proof (cases "find (\<lambda>n. toLowerCase n = toLowerCase u) names")
  case None
  then have no: "\<not> (\<exists>x \<in> set names. toLowerCase x = toLowerCase u)"
    by (simp add: find_None_iff)
  then have "u \<notin> set names" by blast
  with None no show ?thesis by (simp add: resolve_name_def list_ex_iff)
next
  case (Some n)
  from find_SomeD [OF Some] have n: "toLowerCase n = toLowerCase u" "n \<in> set names" by auto
  then have ex: "list_ex (\<lambda>x. toLowerCase x = toLowerCase u) names"
    by (auto simp: list_ex_iff)
  show ?thesis
  proof (cases "n = []")
    case True
    with n(1) have "u = []" by (simp add: toLowerCase_def)
    with True n(2) Some ex show ?thesis by (simp add: resolve_name_def)
  next
    case False
    with n(2) Some ex show ?thesis by (simp add: resolve_name_def)
  qed
qed

lemma path_parts_cases:
  fixes ident :: jsstring
  defines "segs \<equiv> split_on (slash) ident"
  shows "(length segs = 1 \<and> path_parts ident = (Some (segs ! 0), None, None))
       \<or> (length segs = 2 \<and> path_parts ident = (Some (segs ! 0), Some (segs ! 1), None))
       \<or> (3 \<le> length segs
           \<and> path_parts ident =
               (Some (segs ! (length segs - 3)), Some (segs ! (length segs - 2)), Some (last segs)))"
proof -
  have ne: "segs \<noteq> []" by (simp add: segs_def split_on_nonempty)
  from ne have "0 < length segs" by simp
  then consider "length segs = 1" | "length segs = 2" | "3 \<le> length segs"
    by linarith
  then show ?thesis
  proof cases
    case 1
    then show ?thesis
      by (simp add: path_parts_def Let_def nth_opt_def segs_def [symmetric])
  next
    case 2
    then show ?thesis
      by (simp add: path_parts_def Let_def nth_opt_def segs_def [symmetric])
  next
    case 3
    then have "last segs = segs ! (length segs - 1)" using ne by (simp add: last_conv_nth)
    moreover have "length segs - 3 + 1 = length segs - 2" "length segs - 3 + 2 = length segs - 1"
      using 3 by simp_all
    ultimately show ?thesis using 3
      by (simp add: path_parts_def Let_def nth_opt_def segs_def [symmetric])
  qed
qed

text \<open>
  C10. For a markdown document whose path does not end in the directory of a known
  function name (compared without regard to case) followed by \<^verbatim>\<open>index.md\<close>, the
  transform is the link rewriting alone: its result is the text after linkification and
  relativisation of links, with no block rewritten and nothing injected. (For a path
  without any \<^verbatim>\<open>/\<close> and a non-empty registry, line 45 reads a property of
  \<^verbatim>\<open>undefined\<close> and the transform throws after the link rewriting.)
\<close>

theorem other_pages_links_only:
  assumes "has_md ident"
    and "\<not> ends_with_function_index (functionNames env) ident"
  shows "transform env code ident =
           (case link_rewrite env code of
              Inl e \<Rightarrow> Inl e
            | Inr code1 \<Rightarrow>
                if slash \<in> set ident \<or> functionNames env = [] then Inr (Some code1)
                else Inl TypeError)"
proof (cases "link_rewrite env code")
  case (Inl e)
  with assms(1) show ?thesis by (simp add: transform_def)
next
  case (Inr code1)
  let ?segs = "split_on (slash) ident"
  let ?names = "functionNames env"
  from path_parts_cases [of ident]
  consider (one) "length ?segs = 1" "path_parts ident = (Some (?segs ! 0), None, None)"
    | (two) "length ?segs = 2" "path_parts ident = (Some (?segs ! 0), Some (?segs ! 1), None)"
    | (more) "3 \<le> length ?segs"
        "path_parts ident =
           (Some (?segs ! (length ?segs - 3)), Some (?segs ! (length ?segs - 2)), Some (last ?segs))"
    by blast
  then show ?thesis
  proof cases
    case one
    then have "slash \<notin> set ident" using split_on_length [of "slash" ident] by simp
    with one Inr assms(1) show ?thesis
      by (simp add: transform_def resolve_name_def)
  next
    case two
    then have sl: "slash \<in> set ident" using split_on_length [of "slash" ident] by simp
    from resolve_name_Some [of ?names "?segs ! 1"] obtain n where
      "resolve_name ?names (Some (?segs ! 1)) = Inr (Some n)" by blast
    with two sl Inr assms(1) show ?thesis
      by (simp add: transform_def)
  next
    case more
    then have sl: "slash \<in> set ident" using split_on_length [of "slash" ident] by simp
    from resolve_name_Some [of ?names "?segs ! (length ?segs - 2)"] obtain n where
      n: "resolve_name ?names (Some (?segs ! (length ?segs - 2))) = Inr (Some n)"
         "n \<in> set ?names \<longleftrightarrow> list_ex (\<lambda>x. toLowerCase x = toLowerCase (?segs ! (length ?segs - 2))) ?names"
      by blast
    from assms(2) more(1) n(2) have "\<not> (n \<in> set ?names \<and> last ?segs = (js ''index.md''))"
      by (auto simp: ends_with_function_index_def Let_def)
    with more n(1) sl Inr assms(1) show ?thesis
      by (auto simp: transform_def)
  qed
qed

theorem other_pages_links_only_witness:
  "has_md (js ''/repo/packages/guide/index.md'')
   \<and> \<not> ends_with_function_index (functionNames sample_env) (js ''/repo/packages/guide/index.md'')
   \<and> link_rewrite sample_env doc_function = Inr doc_function
   \<and> transform sample_env doc_function (js ''/repo/packages/guide/index.md'') = Inr (Some doc_function)"
proof -
  have 1: "has_md (js ''/repo/packages/guide/index.md'')" by code_simp
  have 2: "\<not> ends_with_function_index (functionNames sample_env) (js ''/repo/packages/guide/index.md'')"
    by code_simp
  have 3: "link_rewrite sample_env doc_function = Inr doc_function" by code_simp
  have 4: "slash \<in> set (js ''/repo/packages/guide/index.md'')" by simp
  from other_pages_links_only [OF 1 2, of doc_function] 3 4 1 2 show ?thesis by simp
qed

subsection \<open>Matching a fence again\<close>

lemma after_prefix_None_iff: "after_prefix p s = None \<longleftrightarrow> \<not> prefix p s"
proof -
  have "after_prefix p s \<noteq> None \<longleftrightarrow> prefix p s"
    by (auto simp: after_prefix_iff prefix_def)
  then show ?thesis by blast
qed

lemma prefix_long: "length p \<le> length u \<Longrightarrow> prefix p (u @ x) \<longleftrightarrow> prefix p u"
  by (auto simp: prefix_def append_eq_append_conv2)

lemma match_body_rebuild:
  "match_body s = Some (b, r) \<Longrightarrow> match_body (b @ fence_close @ t) = Some (b, t)"
proof (induction s arbitrary: b r)
  case Nil
  then show ?case by simp
next
  case (Cons c cs)
  show ?case
  proof (cases "after_prefix fence_close cs")
    case (Some r')
    with Cons.prems have "b = [c]" by simp
    then show ?thesis by simp
  next
    case None
    with Cons.prems obtain b' where b': "match_body cs = Some (b', r)" "b = c # b'"
      by (auto split: option.splits)
    from match_body_SomeD [OF b'(1)] have cs: "cs = b' @ fence_close @ r" and ne: "b' \<noteq> []"
      by auto
    have len: "length fence_close \<le> length (b' @ fence_close)" by simp
    from None cs have "\<not> prefix fence_close ((b' @ fence_close) @ r)"
      by (simp add: after_prefix_None_iff)
    then have "\<not> prefix fence_close (b' @ fence_close)"
      using prefix_long [OF len, of r] by blast
    then have "\<not> prefix fence_close ((b' @ fence_close) @ t)"
      using prefix_long [OF len, of t] by blast
    then have "after_prefix fence_close (b' @ fence_close @ t) = None"
      by (simp add: after_prefix_None_iff)
    with Cons.IH [OF b'(1)] b'(2) show ?thesis by simp
  qed
qed

lemma match_meta_rebuild:
  assumes "m \<noteq> []" and "nl \<notin> set m"
  shows "match_meta (space # m @ nl # t) = Some (Some (space # m), t)"
proof -
  have "takeWhile (\<lambda>d. d \<noteq> nl) (m @ nl # t) = m"
    using assms(2) by (induction m) auto
  moreover have "dropWhile (\<lambda>d. d \<noteq> nl) (m @ nl # t) = nl # t"
    using assms(2) by (induction m) auto
  ultimately show ?thesis using assms(1) by (simp add: match_meta_def)
qed

lemma match_meta_None_rebuild: "match_meta (nl # t) = Some (None, t)"
  by (simp add: match_meta_def nl_def)

lemma match_meta_shape:
  assumes "match_meta s = Some (Some g, r)"
  shows "\<exists>m. g = space # m \<and> m \<noteq> [] \<and> nl \<notin> set m"
proof -
  from assms obtain c cs where s: "s = c # cs" by (cases s) (auto simp: match_meta_def)
  with assms have c: "c = space" by (auto simp: match_meta_def nl_def split: if_splits)
  let ?m = "takeWhile (\<lambda>d. d \<noteq> nl) cs"
  from assms s c have "g = space # ?m" "?m \<noteq> []"
    by (auto simp: match_meta_def Let_def split: if_splits)
  moreover have "nl \<notin> set ?m" by (auto dest: set_takeWhileD)
  ultimately show ?thesis by blast
qed

lemma match_at_rebuild:
  assumes g: "case g of None \<Rightarrow> True | Some x \<Rightarrow> \<exists>m. x = space # m \<and> m \<noteq> [] \<and> nl \<notin> set m"
    and b: "match_body (b @ fence_close) = Some (b, [])"
  shows "match_at (fence_open @ (case g of None \<Rightarrow> [] | Some x \<Rightarrow> x) @ nl # b @ fence_close @ t)
           = Some \<lparr>whole = fence_open @ (case g of None \<Rightarrow> [] | Some x \<Rightarrow> x) @ nl # b @ fence_close,
                   group1 = g, group2 = b\<rparr>"
proof -
  let ?x = "case g of None \<Rightarrow> [] | Some x \<Rightarrow> x"
  let ?s = "fence_open @ ?x @ nl # b @ fence_close @ t"
  have 1: "after_prefix fence_open ?s = Some (?x @ nl # b @ fence_close @ t)" by simp
  have 2: "match_meta (?x @ nl # b @ fence_close @ t) = Some (g, b @ fence_close @ t)"
  proof (cases g)
    case None
    then show ?thesis by (simp add: match_meta_None_rebuild)
  next
    case (Some x)
    with g obtain m where "x = space # m" "m \<noteq> []" "nl \<notin> set m" by auto
    with Some show ?thesis using match_meta_rebuild [of m "b @ fence_close @ t"] by simp
  qed
  from match_body_rebuild [of "b @ fence_close" b "[]" t] b
  have 3: "match_body (b @ fence_close @ t) = Some (b, t)" by simp
  have "take (length ?s - length t) ?s = fence_open @ ?x @ nl # b @ fence_close"
    by simp
  with 1 2 3 show ?thesis by (simp add: match_at_def)
qed

lemma match_at_shape:
  assumes "match_at s = Some m"
  shows "case group1 m of None \<Rightarrow> True | Some x \<Rightarrow> \<exists>y. x = space # y \<and> y \<noteq> [] \<and> nl \<notin> set y"
    and "match_body (group2 m @ fence_close) = Some (group2 m, [])"
proof -
  from assms obtain s1 g1 s2 g2 s3 where
    2: "match_meta s1 = Some (g1, s2)" and
    3: "match_body s2 = Some (g2, s3)" and
    m: "m = \<lparr>whole = take (length s - length s3) s, group1 = g1, group2 = g2\<rparr>"
    by (auto simp: match_at_def split: option.splits)
  from 2 m show "case group1 m of None \<Rightarrow> True | Some x \<Rightarrow> \<exists>y. x = space # y \<and> y \<noteq> [] \<and> nl \<notin> set y"
    by (cases g1) (auto dest: match_meta_shape)
  from match_body_rebuild [OF 3, of "[]"] m
  show "match_body (group2 m @ fence_close) = Some (group2 m, [])" by simp
qed

lemma match_at_again:
  assumes "match_at s = Some m"
  shows "match_at (whole m @ t) = Some m"
proof -
  from match_at_rebuild [OF match_at_shape [OF assms], of t] match_at_SomeD(1) [OF assms]
  show ?thesis by (simp add: meta_of_def)
qed

lemma scan_skip: "k \<le> length s \<Longrightarrow> scan k s = scan 0 (drop k s)"
proof (induction k s rule: scan.induct)
  case (3 c cs)
  then show ?case by simp
qed auto

lemma scan_match_first:
  assumes "match_at (w @ t) = Some m" and "whole m = w"
  shows "scan 0 (w @ t) = Inr m # scan 0 t"
proof -
  from match_at_whole_nonempty [OF assms(1)] assms(2) obtain c cs where w: "w = c # cs"
    by (cases w) auto
  have "scan (length cs) (cs @ t) = scan 0 t"
    using scan_skip [of "length cs" "cs @ t"] by simp
  with assms w show ?thesis by simp
qed

lemma matches_whole:
  assumes "match_at s = Some m"
  shows "matches (whole m) = [m]"
  using scan_match_first [of "whole m" "[]" m] match_at_again [OF assms, of "[]"]
  by (simp add: matches_def)

lemma code_toggle_split:
  "code_toggle meta snippet jsout =
     (js ''\<newline><CodeToggle>\<newline><div class=\"code-block-ts\">\<newline>'')
     @ (fence_open @ (space # meta) @ nl # snippet @ fence_close)
     @ ((js ''\<newline></div>\<newline><div class=\"code-block-js\">\<newline>\<newline>```js\<newline>'') @ jsout
        @ (js ''\<newline>```\<newline>\<newline></div>\<newline></CodeToggle>\<newline>''))"
  by (simp add: code_toggle_def fence_open_def fence_close_def nl_def)

lemma scan_toggle_head:
  "scan 0 ((js ''\<newline><CodeToggle>\<newline><div class=\"code-block-ts\">\<newline>'') @ fence_open @ t)
     = map Inl (js ''\<newline><CodeToggle>\<newline><div class=\"code-block-ts\">\<newline>'') @ scan 0 (fence_open @ t)"
  by (simp add: match_at_def fence_open_def)

lemma matches_code_toggle:
  assumes "meta = space # y" "y \<noteq> []" "nl \<notin> set y"
    and "match_body (snippet @ fence_close) = Some (snippet, [])"
  shows "\<exists>rest. matches (code_toggle meta snippet jsout) =
           \<lparr>whole = fence_open @ (space # meta) @ nl # snippet @ fence_close,
            group1 = Some (space # meta), group2 = snippet\<rparr> # rest"
proof -
  define m' where "m' = \<lparr>whole = fence_open @ (space # meta) @ nl # snippet @ fence_close,
              group1 = Some (space # meta), group2 = snippet\<rparr>"
  define p where "p = (js ''\<newline><CodeToggle>\<newline><div class=\"code-block-ts\">\<newline>'')"
  define q where "q = (js ''\<newline></div>\<newline><div class=\"code-block-js\">\<newline>\<newline>```js\<newline>'') @ jsout
        @ (js ''\<newline>```\<newline>\<newline></div>\<newline></CodeToggle>\<newline>'')"
  define x where "x = (space # meta) @ nl # snippet @ fence_close @ q"
  have 1: "code_toggle meta snippet jsout = p @ fence_open @ x"
    by (simp add: code_toggle_split p_def q_def x_def)
  have 2: "scan 0 (p @ fence_open @ x) = map Inl p @ scan 0 (fence_open @ x)"
    unfolding p_def by (rule scan_toggle_head)
  have g: "case Some (space # meta) of None \<Rightarrow> True
           | Some x \<Rightarrow> \<exists>m. x = space # m \<and> m \<noteq> [] \<and> nl \<notin> set m"
    using assms(1,3) by (simp add: nl_def)
  from match_at_rebuild [OF g assms(4), of q]
  have "match_at (whole m' @ q) = Some m'"
    by (simp add: m'_def)
  from scan_match_first [OF this]
  have "scan 0 (whole m' @ q) = Inr m' # scan 0 q" by simp
  moreover have "whole m' @ q = fence_open @ x" by (simp add: m'_def x_def)
  ultimately have 3: "scan 0 (fence_open @ x) = Inr m' # scan 0 q" by simp
  have "matches (code_toggle meta snippet jsout) = m' # matches q"
    by (simp add: matches_def 1 2 3)
  then show ?thesis unfolding m'_def by blast
qed

lemma is_twoslash_space [simp]: "is_twoslash (space # meta) = is_twoslash meta"
  by (simp add: is_twoslash_def trim_def is_space_def)

lemma rendering_again:
  assumes "rendering env meta body = Inr (snippet, formattedTS, formattedJS)"
    and "transpile_source env meta' snippet = Inr snippet"
  shows "rendering env meta' snippet = Inr (snippet, formattedTS, formattedJS)"
  using rendering_InrD [OF assms(1)] assms(2) by (auto simp: rendering_def)

lemma promise_all_map_Inr: "promise_all rc (map Inr vs) = Inr vs"
proof -
  have "filter (\<lambda>i. isl (map Inr vs ! i)) [0..<length (map Inr vs)] = []"
    by (simp add: filter_empty_conv)
  then show ?thesis by (simp add: promise_all_def Let_def comp_def)
qed

lemma replaceAsync_whole:
  assumes "match_at s = Some m" and "f m = Inr (whole m)"
  shows "replaceAsync rc (whole m) f = Inr (whole m)"
proof -
  have sc: "scan 0 (whole m) = [Inr m]"
    using scan_match_first [of "whole m" "[]" m] match_at_again [OF assms(1), of "[]"] by simp
  have "promise_all rc (map f (matches (whole m))) = Inr [whole m]"
    using promise_all_map_Inr [of rc "[whole m]"] assms(2) by (simp add: matches_def sc)
  then show ?thesis by (simp add: replaceAsync_eq sc piece_out_def assms(2))
qed

lemma toggle_head_split:
  "code_toggle meta snippet jsout =
     toggle_head @ fence_open @ (space # meta) @ nl # snippet @ fence_close
     @ js ''\<newline></div>\<newline><div class=\"code-block-js\">\<newline>\<newline>```js\<newline>'' @ jsout
     @ js ''\<newline>```\<newline>\<newline></div>\<newline></CodeToggle>\<newline>''"
  by (simp add: code_toggle_split toggle_head_def)

lemma match_at_trailing_space: "match_at (fence_open @ space # nl # t) = None"
  by (simp add: match_at_def match_meta_def nl_def)

text \<open>
  C6 (as stated: a second run over the emitted TS pane decides as the first run did). A
  Diverged block without annotation is emitted under the fence line \<^verbatim>\<open>```ts\<close> followed
  by a space (line 70 with an empty \<^verbatim>\<open>meta\<close>), which the pattern of line 53 does not
  match: the second run finds no block in the first run's output and leaves it as it is.
\<close>

theorem second_pass_counterexample:
  "match_at (whole (block [] (js ''const a: number = 1''))) = Some (block [] (js ''const a: number = 1''))
   \<and> ts_block_replacer sample_env (block [] (js ''const a: number = 1''))
       = Inr (code_toggle [] (js ''const a: number = 1'') (js ''const a = 1''))
   \<and> code_toggle [] (js ''const a: number = 1'') (js ''const a = 1'')
       \<noteq> whole (block [] (js ''const a: number = 1''))
   \<and> matches (code_toggle [] (js ''const a: number = 1'') (js ''const a = 1'')) = []
   \<and> replaceAsync (race sample_env) (code_toggle [] (js ''const a: number = 1'') (js ''const a = 1'')) (ts_block_replacer sample_env)
       = Inr (code_toggle [] (js ''const a: number = 1'') (js ''const a = 1''))"
  by code_simp

text \<open>
  C6 (amended). Let a matched block have the replacement \<open>out\<close>.
  If the block is decided Unchanged, \<open>out\<close> is the fence itself: a second run over it
  matches this one block, with the same annotation and body, and returns \<open>out\<close> again.
  If the block is decided Diverged and its fence has an annotation, the pattern matches
  in \<open>out\<close> at the fence of the TS pane (after the text of lines 66 to 69), this is the
  first match of \<open>out\<close>, its annotation is the original one after a space and its body
  the body of the pane, and the block rewriting decides this match Diverged again, with
  the same body of the TS pane and the same body of the JS pane; for a twoslash block
  this holds when the twoslasher returns its own output unchanged and that output is a
  fence body (not empty, with no closing fence line inside).
  If the block is decided Diverged and its fence has no annotation, the fence line of the
  TS pane is \<^verbatim>\<open>```ts\<close> and a space, and the pattern does not match at the fence of the
  TS pane: the second run takes no decision on the pane.
\<close>

theorem second_pass_same_decision:
  assumes "match_at s = Some m"
    and "ts_block_replacer env m = Inr out"
    and "\<And>stripped. out \<noteq> whole m \<Longrightarrow> is_twoslash (meta_of m)
           \<Longrightarrow> twoslasher env (group2 m) (js ''ts'') = Inr stripped
           \<Longrightarrow> twoslasher env stripped (js ''ts'') = Inr stripped
               \<and> match_body (stripped @ fence_close) = Some (stripped, [])"
  shows "if out = whole m
         then matches out = [m] \<and> replaceAsync rc out (ts_block_replacer env) = Inr out
         else \<exists>snippet formattedJS.
                out = code_toggle (meta_of m) snippet formattedJS
              \<and> (case group1 m of
                   None \<Rightarrow> match_at (drop (length toggle_head) out) = None
                 | Some g \<Rightarrow>
                     match_at (drop (length toggle_head) out) = Some (ts_pane g snippet)
                   \<and> (\<exists>rest. matches out = ts_pane g snippet # rest)
                   \<and> ts_block_replacer env (ts_pane g snippet)
                       = Inr (code_toggle (space # g) snippet formattedJS)
                   \<and> code_toggle (space # g) snippet formattedJS \<noteq> whole (ts_pane g snippet))"
proof (cases "out = whole m")
  case True
  with matches_whole [OF assms(1)] replaceAsync_whole [OF assms(1), of "ts_block_replacer env" rc] assms(2)
  show ?thesis by simp
next
  case False
  from assms(2) obtain snippet formattedTS formattedJS where
    r: "rendering env (meta_of m) (group2 m) = Inr (snippet, formattedTS, formattedJS)" and
    out: "out = (if formattedJS = formattedTS then whole m else code_toggle (meta_of m) snippet formattedJS)"
    by (rule ts_block_replacer_InrD)
  from out False have ne: "formattedJS \<noteq> formattedTS"
    and o: "out = code_toggle (meta_of m) snippet formattedJS"
    by (auto split: if_splits)
  have "case group1 m of
          None \<Rightarrow> match_at (drop (length toggle_head) out) = None
        | Some g \<Rightarrow>
            match_at (drop (length toggle_head) out) = Some (ts_pane g snippet)
          \<and> (\<exists>rest. matches out = ts_pane g snippet # rest)
          \<and> ts_block_replacer env (ts_pane g snippet)
              = Inr (code_toggle (space # g) snippet formattedJS)
          \<and> code_toggle (space # g) snippet formattedJS \<noteq> whole (ts_pane g snippet)"
  proof (cases "group1 m")
    case None
    then have "meta_of m = []" by (simp add: meta_of_def)
    define t where "t = snippet @ fence_close
                     @ js ''\<newline></div>\<newline><div class=\"code-block-js\">\<newline>\<newline>```js\<newline>'' @ formattedJS
                     @ js ''\<newline>```\<newline>\<newline></div>\<newline></CodeToggle>\<newline>''"
    from o \<open>meta_of m = []\<close> have "out = toggle_head @ (fence_open @ space # nl # t)"
      by (simp add: toggle_head_split t_def del: js_simps)
    then have "drop (length toggle_head) out = fence_open @ space # nl # t" by simp
    with None show ?thesis by (simp only: match_at_trailing_space option.case)
  next
    case (Some g)
    then have meta: "meta_of m = g" by (simp add: meta_of_def)
    from match_at_shape(1) [OF assms(1)] Some obtain y where
      y: "g = space # y" "y \<noteq> []" "nl \<notin> set y" by auto
    have src: "transpile_source env g (group2 m) = Inr snippet"
      using rendering_InrD(1) [OF r] by (simp add: meta)
    have body: "match_body (snippet @ fence_close) = Some (snippet, [])"
    proof (cases "is_twoslash g")
      case True
      with src have "twoslasher env (group2 m) (js ''ts'') = Inr snippet"
        by (simp add: transpile_source_def)
      from assms(3) [OF False _ this] True meta show ?thesis by simp
    next
      case False
      with src have "snippet = group2 m" by (simp add: transpile_source_def)
      with match_at_shape(2) [OF assms(1)] show ?thesis by simp
    qed
    have again: "transpile_source env (space # g) snippet = Inr snippet"
    proof (cases "is_twoslash g")
      case True
      with src have "twoslasher env (group2 m) (js ''ts'') = Inr snippet"
        by (simp add: transpile_source_def)
      from assms(3) [OF False _ this] True meta show ?thesis by (simp add: transpile_source_def)
    next
      case False
      then show ?thesis by (simp add: transpile_source_def)
    qed
    define q where "q = js ''\<newline></div>\<newline><div class=\"code-block-js\">\<newline>\<newline>```js\<newline>'' @ formattedJS
                        @ js ''\<newline>```\<newline>\<newline></div>\<newline></CodeToggle>\<newline>''"
    have w: "whole (ts_pane g snippet) = fence_open @ (space # g) @ nl # snippet @ fence_close"
      by (simp add: ts_pane_def)
    from o meta have "out = toggle_head @ whole (ts_pane g snippet) @ q"
      by (simp add: toggle_head_split w q_def del: js_simps)
    then have d: "drop (length toggle_head) out = whole (ts_pane g snippet) @ q" by simp
    have gg: "case Some (space # g) of None \<Rightarrow> True
              | Some x \<Rightarrow> \<exists>m. x = space # m \<and> m \<noteq> [] \<and> nl \<notin> set m"
      using y(1,3) by (simp add: nl_def)
    from match_at_rebuild [OF gg body, of q]
    have 1: "match_at (drop (length toggle_head) out) = Some (ts_pane g snippet)"
      by (simp add: d ts_pane_def)
    from matches_code_toggle [OF y body, of formattedJS] o meta
    have 2: "\<exists>rest. matches out = ts_pane g snippet # rest"
      by (simp add: ts_pane_def)
    have "rendering env (meta_of (ts_pane g snippet)) (group2 (ts_pane g snippet))
            = Inr (snippet, formattedTS, formattedJS)"
      using rendering_again [OF r again] by (simp add: ts_pane_def meta_of_def)
    with ne have 3: "ts_block_replacer env (ts_pane g snippet)
                       = Inr (code_toggle (space # g) snippet formattedJS)"
      by (simp add: ts_block_replacer_def ts_pane_def meta_of_def)
    have 4: "code_toggle (space # g) snippet formattedJS \<noteq> whole (ts_pane g snippet)"
      by (simp add: ts_pane_def code_toggle_def fence_open_def)
    from 1 2 3 4 Some show ?thesis by simp
  qed
  with o False show ?thesis by auto
qed

theorem second_pass_same_decision_witness:
  "match_at (whole (block (js '' twoslash'') (js ''const a: number = 1\<newline>//    ^?'')))
     = Some (block (js '' twoslash'') (js ''const a: number = 1\<newline>//    ^?''))
   \<and> ts_block_replacer sample_env (block (js '' twoslash'') (js ''const a: number = 1\<newline>//    ^?''))
       = Inr (code_toggle (js '' twoslash'') (js ''const a: number = 1'') (js ''const a = 1''))
   \<and> code_toggle (js '' twoslash'') (js ''const a: number = 1'') (js ''const a = 1'')
       \<noteq> whole (block (js '' twoslash'') (js ''const a: number = 1\<newline>//    ^?''))
   \<and> twoslasher sample_env (js ''const a: number = 1'') (js ''ts'') = Inr (js ''const a: number = 1'')
   \<and> match_body (js ''const a: number = 1'' @ fence_close) = Some (js ''const a: number = 1'', [])
   \<and> (\<exists>snippet formattedJS.
         code_toggle (js '' twoslash'') (js ''const a: number = 1'') (js ''const a = 1'')
           = code_toggle (js '' twoslash'') snippet formattedJS
       \<and> match_at (drop (length toggle_head)
                     (code_toggle (js '' twoslash'') (js ''const a: number = 1'') (js ''const a = 1'')))
           = Some (ts_pane (js '' twoslash'') snippet)
       \<and> (\<exists>rest. matches (code_toggle (js '' twoslash'') (js ''const a: number = 1'') (js ''const a = 1''))
                   = ts_pane (js '' twoslash'') snippet # rest)
       \<and> ts_block_replacer sample_env (ts_pane (js '' twoslash'') snippet)
           = Inr (code_toggle (space # js '' twoslash'') snippet formattedJS)
       \<and> code_toggle (space # js '' twoslash'') snippet formattedJS \<noteq> whole (ts_pane (js '' twoslash'') snippet))"
proof -
  let ?m = "block (js '' twoslash'') (js ''const a: number = 1\<newline>//    ^?'')"
  let ?out = "code_toggle (js '' twoslash'') (js ''const a: number = 1'') (js ''const a = 1'')"
  have 1: "match_at (whole ?m) = Some ?m" by code_simp
  have 2: "ts_block_replacer sample_env ?m = Inr ?out" by code_simp
  have 3: "group1 ?m = Some (js '' twoslash'')" "meta_of ?m = js '' twoslash''" by code_simp+
  have 4: "twoslasher sample_env (js ''const a: number = 1'') (js ''ts'') = Inr (js ''const a: number = 1'')"
    by code_simp
  have 5: "match_body (js ''const a: number = 1'' @ fence_close) = Some (js ''const a: number = 1'', [])"
    by code_simp
  have 6: "twoslasher sample_env (group2 ?m) (js ''ts'') = Inr (js ''const a: number = 1'')" by code_simp
  have 7: "?out \<noteq> whole ?m" by code_simp
  have h: "twoslasher sample_env stripped (js ''ts'') = Inr stripped
           \<and> match_body (stripped @ fence_close) = Some (stripped, [])"
    if "twoslasher sample_env (group2 ?m) (js ''ts'') = Inr stripped" for stripped
    using that 4 5 6 by simp
  from second_pass_same_decision [OF 1 2 h, of "race sample_env"] 7
  have "\<exists>snippet formattedJS.
          ?out = code_toggle (meta_of ?m) snippet formattedJS
        \<and> (case group1 ?m of
             None \<Rightarrow> match_at (drop (length toggle_head) ?out) = None
           | Some g \<Rightarrow>
               match_at (drop (length toggle_head) ?out) = Some (ts_pane g snippet)
             \<and> (\<exists>rest. matches ?out = ts_pane g snippet # rest)
             \<and> ts_block_replacer sample_env (ts_pane g snippet)
                 = Inr (code_toggle (space # g) snippet formattedJS)
             \<and> code_toggle (space # g) snippet formattedJS \<noteq> whole (ts_pane g snippet))"
    by (simp only: if_False)
  then have "\<exists>snippet formattedJS.
         ?out = code_toggle (js '' twoslash'') snippet formattedJS
       \<and> match_at (drop (length toggle_head) ?out) = Some (ts_pane (js '' twoslash'') snippet)
       \<and> (\<exists>rest. matches ?out = ts_pane (js '' twoslash'') snippet # rest)
       \<and> ts_block_replacer sample_env (ts_pane (js '' twoslash'') snippet)
           = Inr (code_toggle (space # js '' twoslash'') snippet formattedJS)
       \<and> code_toggle (space # js '' twoslash'') snippet formattedJS \<noteq> whole (ts_pane (js '' twoslash'') snippet)"
    unfolding 3 by (simp only: option.case)
  with 1 2 7 4 5 show ?thesis by blast
qed

subsection \<open>What the steps after the link rewriting keep\<close>

lemma subseq_kept_piece: "subseq (piece_kept f p) (piece_out f p)"
  by (cases p) (auto simp: piece_kept_def piece_out_def)

lemma subseq_kept_text: "subseq (piece_kept f p) (piece_text p)"
  by (cases p) (auto simp: piece_kept_def)

lemma subseq_concat_map:
  assumes "\<And>p. subseq (g p) (h p)"
  shows "subseq (concat (map g ps)) (concat (map h ps))"
proof (induction ps)
  case Nil
  then show ?case by simp
next
  case (Cons p ps)
  from assms [of p] Cons show ?case by (simp add: list_emb_append_mono)
qed

lemma subseq_kept_self: "subseq (kept f str) str"
proof -
  have "subseq (concat (map (piece_kept f) (scan 0 str))) (concat (map piece_text (scan 0 str)))"
    by (rule subseq_concat_map) (rule subseq_kept_text)
  with scan_concat [of 0 str] show ?thesis by (simp add: kept_def)
qed

lemma subseq_replaceAsync:
  assumes "replaceAsync rc str f = Inr out"
  shows "subseq (kept f str) out"
proof -
  from assms have "out = concat (map (piece_out f) (scan 0 str))"
    by (auto simp: replaceAsync_eq split: sum.splits)
  moreover have "subseq (concat (map (piece_kept f) (scan 0 str))) (concat (map (piece_out f) (scan 0 str)))"
    by (rule subseq_concat_map) (rule subseq_kept_piece)
  ultimately show ?thesis by (simp add: kept_def)
qed

lemma subseq_insert: "subseq (a @ b) (a @ h @ b)"
  by (simp add: subseq_append' subseq_drop_many)

lemma match_title_SomeD: "match_title s = Some (g, rest) \<Longrightarrow> s = g @ nl # rest"
proof -
  assume a: "match_title s = Some (g, rest)"
  then obtain r where r: "after_prefix (js ''# '') s = Some r"
    by (auto simp: match_title_def split: option.splits)
  let ?w = "takeWhile is_word r" and ?r' = "dropWhile is_word r"
  from a r have g: "g = (js ''# '') @ ?w" and rest: "rest = tl ?r'"
    and hd: "case ?r' of [] \<Rightarrow> False | d # _ \<Rightarrow> d = nl"
    by (auto simp: match_title_def Let_def split: if_splits)
  from hd have "?r' = nl # tl ?r'" by (cases ?r') auto
  then have "r = ?w @ nl # tl ?r'" using takeWhile_dropWhile_id [of is_word r] by simp
  with r g rest show ?thesis by (simp add: after_prefix_iff)
qed

lemma subseq_replace_title: "subseq s (replace_title name s)"
proof (induction s)
  case Nil
  then show ?case by simp
next
  case (Cons c cs)
  show ?case
  proof (cases "match_title (c # cs)")
    case None
    with Cons show ?thesis by simp
  next
    case (Some p)
    obtain g rest where p: "p = (g, rest)" by (cases p)
    from match_title_SomeD [OF Some [unfolded p]] have eq: "c # cs = g @ nl # rest" .
    have rt: "replace_title name (c # cs)
                = g @ (nl # (nl # (js ''<FunctionInfo fn=\"'') @ name @ (js ''\"/>'') @ [nl])) @ rest"
      using Some p by (simp add: nl_def)
    have "subseq (g @ [nl] @ rest) (g @ ([nl] @ (nl # (js ''<FunctionInfo fn=\"'') @ name @ (js ''\"/>'') @ [nl])) @ rest)"
      by (intro list_emb_append_mono subseq_rev_drop_many) simp_all
    then have "subseq (c # cs) (g @ (nl # (nl # (js ''<FunctionInfo fn=\"'') @ name @ (js ''\"/>'') @ [nl])) @ rest)"
      by (simp add: eq)
    then show ?thesis by (simp only: rt)
  qed
qed

lemma ci_prefix_SomeD: "ci_prefix p s = Some (m, r) \<Longrightarrow> s = m @ r"
  by (induction p s arbitrary: m rule: ci_prefix.induct) (auto split: if_splits option.splits)

lemma match_learn_SomeD: "match_learn word s = Some (g, rest) \<Longrightarrow> s = (js ''## '') @ g @ rest"
proof -
  assume a: "match_learn word s = Some (g, rest)"
  then obtain r w r1 where r: "after_prefix (js ''## '') s = Some r" and w: "ci_prefix word r = Some (w, r1)"
    by (auto simp: match_learn_def split: option.splits)
  define p2 where "p2 = (case r1 of [] \<Rightarrow> ([], r1)
                        | c # cs \<Rightarrow> if canonicalize c = 0x53 then ([c], cs) else ([], r1))"
  obtain p r2 where p: "p2 = (p, r2)" by (cases p2)
  define u3 where "u3 = (case r2 of [] \<Rightarrow> ([], r2)
                        | c # cs \<Rightarrow>
                            if is_space c
                            then (case ci_prefix (js ''Usage'') cs of
                                    None \<Rightarrow> ([], r2)
                                  | Some (m, r') \<Rightarrow> (c # m, r'))
                            else ([], r2))"
  obtain u r3 where u: "u3 = (u, r3)" by (cases u3)
  from a r w p u have res: "g = w @ p @ u" "rest = r3"
    by (simp_all add: match_learn_def p2_def [symmetric] u3_def [symmetric])
  from p have 1: "r1 = p @ r2"
    by (auto simp: p2_def split: list.splits if_splits)
  from u have 2: "r2 = u @ r3"
    by (auto simp: u3_def split: list.splits if_splits option.splits dest: ci_prefix_SomeD)
  from ci_prefix_SomeD [OF w] 1 2 have "r = w @ p @ u @ r3" by simp
  with r res show ?thesis by (simp add: after_prefix_iff)
qed

lemma subseq_replace_learn: "subseq s (replace_learn word tag s)"
proof (induction s)
  case Nil
  then show ?case by simp
next
  case (Cons c cs)
  show ?case
  proof (cases "match_learn word (c # cs)")
    case None
    with Cons show ?thesis by simp
  next
    case (Some p)
    obtain g rest where p: "p = (g, rest)" by (cases p)
    from match_learn_SomeD [OF Some [unfolded p]] have eq: "c # cs = (js ''## '') @ g @ rest" .
    have rl: "replace_learn word tag (c # cs)
                = ((js ''## '') @ g) @ ((js ''\<newline><'') @ tag @ (js '' />\<newline>\<newline>'')) @ rest"
      using Some p by simp
    have "subseq (((js ''## '') @ g) @ rest) (((js ''## '') @ g) @ ((js ''\<newline><'') @ tag @ (js '' />\<newline>\<newline>'')) @ rest)"
      by (rule subseq_insert)
    then have "subseq (c # cs) (((js ''## '') @ g) @ ((js ''\<newline><'') @ tag @ (js '' />\<newline>\<newline>'')) @ rest)"
      by (simp add: eq)
    then show ?thesis by (simp only: rl)
  qed
qed

lemma subseq_function_page:
  assumes "function_page env code pkg name = Inr out"
    and "\<And>c footer header.
           replaceAsync (race env) code (ts_block_replacer env) = Inr c
           \<Longrightarrow> getFunctionMarkdown env pkg name = Inr (footer, header)
           \<Longrightarrow> hasTypes env
           \<Longrightarrow> subseq c (replacer env c footer (js ''FOOTER'') (js ''tail''))"
  shows "subseq (kept (ts_block_replacer env) code) out"
proof -
  from assms(1) obtain code1 footer header where
    1: "replaceAsync (race env) code (ts_block_replacer env) = Inr code1" and
    2: "getFunctionMarkdown env pkg name = Inr (footer, header)" and
    out: "out = replace_learn (js ''Directive'') (js ''LearnMoreDirectives'')
                 (replace_learn (js ''Component'') (js ''LearnMoreComponents'')
                   (replace_title name
                     (let code2 = (if hasTypes env then replacer env code1 footer (js ''FOOTER'') (js ''tail'') else code1)
                      in if header \<noteq> [] then take (slice_index code) code2 @ header @ drop (slice_index code) code2
                         else code2)))"
    by (auto simp: function_page_def Let_def split: sum.splits prod.splits)
  define code2 where "code2 = (if hasTypes env then replacer env code1 footer (js ''FOOTER'') (js ''tail'') else code1)"
  define code3 where "code3 = (if header \<noteq> [] then take (slice_index code) code2 @ header @ drop (slice_index code) code2
                         else code2)"
  have a: "subseq (kept (ts_block_replacer env) code) code1" by (rule subseq_replaceAsync [OF 1])
  have b: "subseq code1 code2" using assms(2) [OF 1 2] by (simp add: code2_def)
  have c: "subseq code2 code3"
    using subseq_insert [of "take (slice_index code) code2" "drop (slice_index code) code2" header]
    by (simp add: code3_def)
  have d: "subseq code3 out"
    unfolding out code2_def [symmetric] Let_def code3_def [symmetric]
    by (meson subseq_replace_title subseq_replace_learn subseq_order.trans)
  from a b c d show ?thesis by (meson subseq_order.trans)
qed

lemma transform_SomeD:
  assumes "transform env code ident = Inr (Some out)"
  shows "\<exists>code1. link_rewrite env code = Inr code1
           \<and> (out = code1
               \<or> (\<exists>pkg uname i name. path_parts ident = (Some pkg, uname, i)
                     \<and> resolve_name (functionNames env) uname = Inr (Some name)
                     \<and> function_page env code1 pkg name = Inr out))"
  using assms
  by (auto simp: transform_def split: sum.splits option.splits prod.splits if_splits)

text \<open>
  C8 (as stated: the transform only adds text outside the replaced code fences). The link
  rewriting of lines 30 to 41 deletes text: in \<open>doc_links\<close>, which has no fence, the
  comma after the linked name and the scheme and host of the URL are gone from the output.
\<close>

theorem additions_only_counterexample:
  "matches doc_links = []
   \<and> transform sample_env doc_links (js ''/repo/packages/guide/index.md'')
       = Inr (Some (js ''See [`useBar`](/core/useBar/)  and /guide/ for more.''))
   \<and> \<not> subseq doc_links (js ''See [`useBar`](/core/useBar/)  and /guide/ for more.'')
   \<and> relative_links 0 (js ''and https://vueuse.org/guide/ for more.'') = (js ''and /guide/ for more.'')
   \<and> length (js ''and /guide/ for more.'') < length (js ''and https://vueuse.org/guide/ for more.'')"
  by code_simp

text \<open>
  C8 (amended). The link rewriting deletes text (the scheme and host of every
  \<^verbatim>\<open>vueuse.org\<close> URL, and the character after a linked name). After it, the transform
  only adds text: outside the replaced code fences, that is between the matched fences
  and in every matched fence that the block rewriting returns as it is, every character
  of the link-rewritten document is kept in the output, in order, provided the one call
  of the external \<^verbatim>\<open>replacer\<close>, for the footer of a function page when type
  declarations are shown, returns a text that keeps the characters of the text it is given.
\<close>

theorem after_links_only_additions:
  assumes "link_rewrite env code = Inr code1"
    and "transform env code ident = Inr (Some out)"
    and "\<And>pkg uname i name c footer header.
           path_parts ident = (Some pkg, uname, i)
           \<Longrightarrow> resolve_name (functionNames env) uname = Inr (Some name)
           \<Longrightarrow> replaceAsync (race env) code1 (ts_block_replacer env) = Inr c
           \<Longrightarrow> getFunctionMarkdown env pkg name = Inr (footer, header)
           \<Longrightarrow> hasTypes env
           \<Longrightarrow> subseq c (replacer env c footer (js ''FOOTER'') (js ''tail''))"
  shows "subseq (kept (ts_block_replacer env) code1) out"
proof -
  from transform_SomeD [OF assms(2)] assms(1)
  consider "out = code1"
    | pkg uname i name where "path_parts ident = (Some pkg, uname, i)"
        "resolve_name (functionNames env) uname = Inr (Some name)"
        "function_page env code1 pkg name = Inr out"
    by auto
  then show ?thesis
  proof cases
    case 1
    then show ?thesis by (simp add: subseq_kept_self)
  next
    case 2
    from 2(3) assms(3) [OF 2(1,2)] show ?thesis by (rule subseq_function_page)
  qed
qed

theorem after_links_only_additions_witness:
  "link_rewrite sample_env doc_function = Inr doc_function
   \<and> transform sample_env doc_function (js ''/repo/packages/core/useFoo/index.md'') = Inr (Some doc_function_page)
   \<and> hasTypes sample_env
   \<and> matches doc_function = [block [] (js ''const a: number = 1''), block [] (js ''const a = 1'')]
   \<and> kept (ts_block_replacer sample_env) doc_function =
       js ''# useFoo\<newline>\<newline>## Component Usage\<newline>\<newline>## Directives\<newline>''
       @ whole (block [] (js ''const a = 1'')) @ js ''end\<newline>''
   \<and> subseq (kept (ts_block_replacer sample_env) doc_function) doc_function_page"
proof -
  have 1: "link_rewrite sample_env doc_function = Inr doc_function" by code_simp
  have 2: "transform sample_env doc_function (js ''/repo/packages/core/useFoo/index.md'') = Inr (Some doc_function_page)"
    by code_simp
  have 3: "subseq c (replacer sample_env c footer (js ''FOOTER'') (js ''tail''))" for c footer
    by (simp add: sample_env_def subseq_rev_drop_many del: js_simps)
  have 4: "matches doc_function = [block [] (js ''const a: number = 1''), block [] (js ''const a = 1'')]"
    by code_simp
  have 5: "kept (ts_block_replacer sample_env) doc_function =
       js ''# useFoo\<newline>\<newline>## Component Usage\<newline>\<newline>## Directives\<newline>''
       @ whole (block [] (js ''const a = 1'')) @ js ''end\<newline>''"
    by code_simp
  have 6: "hasTypes sample_env" by code_simp
  from after_links_only_additions [OF 1 2 3] 1 2 4 5 6 show ?thesis by blast
qed

end
